theory Spec2Isabelle
  imports Complex_Main
begin

section \<open>The light-cycle engine (class TronEngine)\<close>

text \<open>
  A shallow embedding of the simulation part of the engine: geometry helpers, the round
  controller, the per-tick update with its collision test, and the grid based decision
  procedure of the computer opponent.

  JavaScript numbers are modelled as mathematical reals (grid coordinates, which the source
  obtains with \<open>Math.floor\<close>, as integers); rounding of floating point arithmetic is
  not modelled. Canvas, sprite and explosion-particle code (rendering, uses
  \<open>Math.random\<close>) is left out; the crash timers, crash flags and wall-shrink records,
  which \<open>update\<close> also writes, are kept. The two callbacks are modelled by a log of the
  calls made, in order.
\<close>

subsection \<open>Data\<close>

datatype difficulty = Easy | Normal | Hard
datatype round_result = ResPlayer | ResAi | ResTie
datatype direction = Up | Down | Left | Right
datatype agent_id = Player | Ai

datatype vec = Vec (vx: real) (vy: real)

datatype segment = Segment (seg_a: vec) (seg_b: vec)

record player_state =
  ident :: agent_id
  pos :: vec
  dir :: vec
  color :: string
  segments :: "segment list"

datatype callback = OnRoundEnd round_result | OnTurn agent_id

datatype error = TypeError

record shrink =
  delay :: real
  progress :: real
  active :: bool

record difficulty_config =
  decisionInterval :: real
  sampleStep :: real
  lookahead :: real
  aggression :: real
  caution :: real
  randomness :: real
  interceptHorizon :: real
  simHorizon :: real
  minTurnBenefit :: real
  minShortClear :: int

record engine =
  width :: real
  height :: real
  player :: player_state
  ai :: player_state
  running :: bool
  speed :: real
  speedTimer :: real
  aiDecisionTimer :: real
  paused :: bool
  aiDistanceSinceTurn :: real
  crashTimerPlayer :: real
  crashTimerAi :: real
  crashedPlayer :: bool
  crashedAi :: bool
  wallShrinkPlayer :: shrink
  wallShrinkAi :: shrink
  difficulty :: difficulty
  calls :: "callback list"

subsection \<open>Constants\<close>

definition BASE_SPEED :: real where "BASE_SPEED = 240"
definition SPEED_STEP :: real where "SPEED_STEP = 20"
definition SPEED_INTERVAL :: real where "SPEED_INTERVAL = 5"
definition MAX_SPEED :: real where "MAX_SPEED = 520"
definition TRAIL_WIDTH :: real where "TRAIL_WIDTH = 6"
definition COLLISION_RADIUS :: real where "COLLISION_RADIUS = 5"
definition COLLISION_TOLERANCE :: real where "COLLISION_TOLERANCE = 1"
definition SPAWN_PADDING :: real where "SPAWN_PADDING = 80"
definition VORONOI_STEP :: real where
  "VORONOI_STEP = (TRAIL_WIDTH + COLLISION_RADIUS + COLLISION_TOLERANCE) * 2"
definition CRASH_FLASH_DURATION :: real where "CRASH_FLASH_DURATION = 0.6"
definition WALL_SHRINK_DURATION :: real where "WALL_SHRINK_DURATION = 0.9"

definition COLOR_player :: string where "COLOR_player = ''#2dd4ff''"
definition COLOR_ai :: string where "COLOR_ai = ''#ffb347''"

fun DIFFICULTY_CONFIG :: "difficulty \<Rightarrow> difficulty_config" where
  "DIFFICULTY_CONFIG Easy = \<lparr> decisionInterval = 0.20, sampleStep = 12, lookahead = 450,
     aggression = 0.2, caution = 1.3, randomness = 0.02, interceptHorizon = 0.3,
     simHorizon = 300, minTurnBenefit = 0.02, minShortClear = 6 \<rparr>"
| "DIFFICULTY_CONFIG Normal = \<lparr> decisionInterval = 0.10, sampleStep = 8, lookahead = 900,
     aggression = 0.8, caution = 1.5, randomness = 0.0, interceptHorizon = 0.7,
     simHorizon = 600, minTurnBenefit = 0.08, minShortClear = 8 \<rparr>"
| "DIFFICULTY_CONFIG Hard = \<lparr> decisionInterval = 0.05, sampleStep = 6, lookahead = 1400,
     aggression = 1.2, caution = 1.6, randomness = 0.0, interceptHorizon = 1.0,
     simHorizon = 900, minTurnBenefit = 0.05, minShortClear = 10 \<rparr>"

fun DIRECTION_VECTORS :: "direction \<Rightarrow> vec" where
  "DIRECTION_VECTORS Up = Vec 0 (-1)"
| "DIRECTION_VECTORS Down = Vec 0 1"
| "DIRECTION_VECTORS Left = Vec (-1) 0"
| "DIRECTION_VECTORS Right = Vec 1 0"

subsection \<open>Geometry helpers\<close>

definition isOpposite :: "vec \<Rightarrow> vec \<Rightarrow> bool" where
  "isOpposite u v = (vx u + vx v = 0 \<and> vy u + vy v = 0)"

definition isSameDirection :: "vec \<Rightarrow> vec \<Rightarrow> bool" where
  "isSameDirection u v = (vx u = vx v \<and> vy u = vy v)"

text \<open>\<open>Math.hypot\<close> on two arguments.\<close>

definition hypot :: "real \<Rightarrow> real \<Rightarrow> real" where
  "hypot p q = sqrt (p * p + q * q)"

definition distance :: "vec \<Rightarrow> vec \<Rightarrow> real" where
  "distance u v = hypot (vx u - vx v) (vy u - vy v)"

definition distancePointToSegment :: "vec \<Rightarrow> vec \<Rightarrow> vec \<Rightarrow> real" where
  "distancePointToSegment p u v =
     (let abx = vx v - vx u;
          aby = vy v - vy u;
          apx = vx p - vx u;
          apy = vy p - vy u;
          abLenSq = abx * abx + aby * aby
      in if abLenSq = 0 then hypot apx apy
         else let t0 = (apx * abx + apy * aby) / abLenSq;
                  t = max 0 (min 1 t0);
                  closest = Vec (vx u + abx * t) (vy u + aby * t)
              in distance p closest)"

subsection \<open>Round controller\<close>

text \<open>
  The source passes \<open>this.player\<close> or \<open>this.ai\<close> by reference to \<open>applyDirection\<close> and
  \<open>extendSegment\<close>; the model passes which of the two fields is meant.
\<close>

fun agent :: "agent_id \<Rightarrow> engine \<Rightarrow> player_state" where
  "agent Player e = player e"
| "agent Ai e = ai e"

fun set_agent :: "agent_id \<Rightarrow> player_state \<Rightarrow> engine \<Rightarrow> engine" where
  "set_agent Player p e = e\<lparr>player := p\<rparr>"
| "set_agent Ai p e = e\<lparr>ai := p\<rparr>"

definition resetRoundState :: "engine \<Rightarrow> engine" where
  "resetRoundState e =
     (let centerY = height e * 0.5
      in e\<lparr> speed := BASE_SPEED,
            speedTimer := 0,
            aiDecisionTimer := 0,
            running := False,
            paused := False,
            crashedPlayer := False,
            crashedAi := False,
            crashTimerPlayer := 0,
            crashTimerAi := 0,
            wallShrinkPlayer := \<lparr> delay = 0, progress = 0, active = False \<rparr>,
            wallShrinkAi := \<lparr> delay = 0, progress = 0, active = False \<rparr>,
            player := \<lparr> ident = Player,
                        pos = Vec SPAWN_PADDING centerY,
                        dir = DIRECTION_VECTORS Right,
                        color = COLOR_player,
                        segments = [Segment (Vec SPAWN_PADDING centerY)
                                            (Vec SPAWN_PADDING centerY)] \<rparr>,
            ai := \<lparr> ident = Ai,
                    pos = Vec (width e - SPAWN_PADDING) centerY,
                    dir = DIRECTION_VECTORS Left,
                    color = COLOR_ai,
                    segments = [Segment (Vec (width e - SPAWN_PADDING) centerY)
                                        (Vec (width e - SPAWN_PADDING) centerY)] \<rparr> \<rparr>)"

definition startRound :: "engine \<Rightarrow> engine" where
  "startRound e = (resetRoundState e)\<lparr> running := True, paused := False \<rparr>"

definition reset :: "engine \<Rightarrow> engine" where
  "reset e = resetRoundState (e\<lparr> running := False, paused := False \<rparr>)"

definition pause :: "engine \<Rightarrow> engine" where
  "pause e = (if running e then e\<lparr> paused := True \<rparr> else e)"

definition resume :: "engine \<Rightarrow> engine" where
  "resume e = (if running e then e\<lparr> paused := False \<rparr> else e)"

definition setDifficulty :: "difficulty \<Rightarrow> engine \<Rightarrow> engine" where
  "setDifficulty level e = e\<lparr> difficulty := level \<rparr>"

text \<open>
  \<open>resize\<close> reads the canvas rectangle; the model takes the rectangle's width and height
  as arguments.
\<close>

definition resize :: "real \<Rightarrow> real \<Rightarrow> engine \<Rightarrow> engine" where
  "resize w h e = e\<lparr> width := w, height := h \<rparr>"

text \<open>
  The constructor: the field initialisers, \<open>createPlayer\<close> for both agents, \<open>resize\<close>
  (the canvas rectangle is given by \<open>w\<close> and \<open>h\<close>) and \<open>resetRoundState\<close>.
\<close>

definition createPlayer :: "agent_id \<Rightarrow> player_state" where
  "createPlayer i =
     \<lparr> ident = i, pos = Vec 0 0, dir = Vec 1 0,
       color = (if i = Player then COLOR_player else COLOR_ai), segments = [] \<rparr>"

definition newEngine :: "real \<Rightarrow> real \<Rightarrow> engine" where
  "newEngine w h =
     resetRoundState
       (resize w h
          \<lparr> width = 0, height = 0,
            player = createPlayer Player, ai = createPlayer Ai,
            running = False, speed = BASE_SPEED, speedTimer = 0, aiDecisionTimer = 0,
            paused = False, aiDistanceSinceTurn = 0,
            crashTimerPlayer = 0, crashTimerAi = 0,
            crashedPlayer = False, crashedAi = False,
            wallShrinkPlayer = \<lparr> delay = 0, progress = 0, active = False \<rparr>,
            wallShrinkAi = \<lparr> delay = 0, progress = 0, active = False \<rparr>,
            difficulty = Normal, calls = [] \<rparr>)"

definition applyDirection :: "agent_id \<Rightarrow> vec \<Rightarrow> engine \<Rightarrow> engine" where
  "applyDirection who d e =
     (let p = agent who e;
          p' = p\<lparr> dir := d, segments := segments p @ [Segment (pos p) (pos p)] \<rparr>;
          e1 = set_agent who p' e;
          e2 = (if ident p' = Ai then e1\<lparr> aiDistanceSinceTurn := 0 \<rparr> else e1)
      in e2\<lparr> calls := calls e2 @ [OnTurn (ident p')] \<rparr>)"

definition setPlayerDirection :: "direction \<Rightarrow> engine \<Rightarrow> engine" where
  "setPlayerDirection direction e =
     (if \<not> running e then e
      else let nextDir = DIRECTION_VECTORS direction
           in if isOpposite (dir (player e)) nextDir then e
              else if isSameDirection (dir (player e)) nextDir then e
              else applyDirection Player nextDir e)"

text \<open>
  \<open>extendSegment\<close> writes to the last segment of the trail; on an empty trail the
  source reads \<open>undefined\<close> and the assignment to its field throws.
\<close>

definition extendSegment :: "player_state \<Rightarrow> vec \<Rightarrow> error + player_state" where
  "extendSegment p nextPos =
     (if segments p = [] then Inl TypeError
      else Inr (p\<lparr> segments := butlast (segments p) @ [Segment (seg_a (last (segments p))) nextPos],
                   pos := nextPos \<rparr>))"

definition endRound :: "round_result \<Rightarrow> engine \<Rightarrow> engine" where
  "endRound result e =
     (if \<not> running e then e
      else e\<lparr> running := False, calls := calls e @ [OnRoundEnd result] \<rparr>)"

subsection \<open>Collision test\<close>

fun pointHitsSegments :: "vec \<Rightarrow> segment list \<Rightarrow> real \<Rightarrow> bool" where
  "pointHitsSegments point [] radius = False"
| "pointHitsSegments point (s # ss) radius =
     (if distancePointToSegment point (seg_a s) (seg_b s) \<le> radius then True
      else pointHitsSegments point ss radius)"

text \<open>\<open>segments.slice(0, -2)\<close>, taken only when the trail has more than two segments.\<close>

definition selfSegments :: "player_state \<Rightarrow> segment list" where
  "selfSegments self = take (length (segments self) - 2) (segments self)"

definition checkCollision :: "engine \<Rightarrow> vec \<Rightarrow> player_state \<Rightarrow> player_state \<Rightarrow> real \<Rightarrow> bool" where
  "checkCollision e point self other inflate =
     (let radius = COLLISION_RADIUS + COLLISION_TOLERANCE + inflate
      in if vx point \<le> radius \<or> vx point \<ge> width e - radius \<or>
            vy point \<le> radius \<or> vy point \<ge> height e - radius then True
         else if pointHitsSegments point (segments other) radius then True
         else if length (segments self) > 2 \<and> pointHitsSegments point (selfSegments self) radius
              then True
         else False)"

subsection \<open>The opponent's grid\<close>

text \<open>
  Grid coordinates and grid directions are the integers the source produces with
  \<open>Math.floor\<close> and with the literal unit steps. The occupied set holds the keys
  \<open>x:y\<close>; one key stands for one pair of integers, so the set is modelled as a set of
  pairs. The type \<open>GridState\<close> is imported by the source from a module that is not part
  of the sources at hand; its fields are taken from their uses (\<open>x\<close>, \<open>y\<close>, \<open>dir\<close>,
  \<open>dead\<close>), and a missing \<open>dead\<close> (which the source only tests for truth) is \<open>False\<close>.
\<close>

type_synonym cell = "int \<times> int"

datatype gvec = GVec (gvx: int) (gvy: int)

record gridState =
  gx :: int
  gy :: int
  gdir :: gvec
  dead :: bool

datatype owner = OwnAi | OwnPlayer | Neutral

definition inGrid :: "int \<Rightarrow> int \<Rightarrow> cell \<Rightarrow> bool" where
  "inGrid w h c = (fst c \<ge> 0 \<and> snd c \<ge> 0 \<and> fst c < w \<and> snd c < h)"

definition getGridMoves :: "gvec \<Rightarrow> gvec list" where
  "getGridMoves d =
     (if gvx d = 1 then [d, GVec 0 (-1), GVec 0 1]
      else if gvx d = -1 then [d, GVec 0 1, GVec 0 (-1)]
      else if gvy d = 1 then [d, GVec 1 0, GVec (-1) 0]
      else [d, GVec (-1) 0, GVec 1 0])"

definition isSameGridDir :: "gvec \<Rightarrow> gvec \<Rightarrow> bool" where
  "isSameGridDir u v = (gvx u = gvx v \<and> gvy u = gvy v)"

definition gridDirToVec :: "gvec \<Rightarrow> vec" where
  "gridDirToVec d =
     (if gvx d = 1 then DIRECTION_VECTORS Right
      else if gvx d = -1 then DIRECTION_VECTORS Left
      else if gvy d = 1 then DIRECTION_VECTORS Down
      else DIRECTION_VECTORS Up)"

definition vectorToGridDir :: "vec \<Rightarrow> gvec" where
  "vectorToGridDir d =
     (if vx d = 1 then GVec 1 0
      else if vx d = -1 then GVec (-1) 0
      else if vy d = 1 then GVec 0 1
      else GVec 0 (-1))"

text \<open>
  The body of \<open>markSegment\<close>'s \<open>while (true)\<close> loop. The loop has no bound in the
  source, so the model is a partial function: \<open>None\<close> means that the loop does not end.
\<close>

partial_function (option) markLoop ::
  "int \<Rightarrow> int \<Rightarrow> int \<Rightarrow> int \<Rightarrow> int \<Rightarrow> int \<Rightarrow> int \<Rightarrow> int \<Rightarrow> int \<Rightarrow> int \<Rightarrow> int \<Rightarrow> cell set
     \<Rightarrow> cell set option" where
  "markLoop w h bx by dx dy sx sy err x y occupied =
     (let occ1 = (if x \<ge> 0 \<and> y \<ge> 0 \<and> x < w \<and> y < h then insert (x, y) occupied else occupied)
      in if x = bx \<and> y = by then Some occ1
         else let e2 = 2 * err;
                  err1 = (if e2 \<ge> dy then err + dy else err);
                  x1 = (if e2 \<ge> dy then x + sx else x);
                  err2 = (if e2 \<le> dx then err1 + dx else err1);
                  y1 = (if e2 \<le> dx then y + sy else y)
              in markLoop w h bx by dx dy sx sy err2 x1 y1 occ1)"

declare markLoop.simps [code]

definition markSegment :: "int \<Rightarrow> int \<Rightarrow> real \<Rightarrow> vec \<Rightarrow> vec \<Rightarrow> cell set \<Rightarrow> cell set option" where
  "markSegment w h cellSize u v occupied =
     (let ax = \<lfloor>vx u / cellSize\<rfloor>;
          ay = \<lfloor>vy u / cellSize\<rfloor>;
          bx = \<lfloor>vx v / cellSize\<rfloor>;
          by = \<lfloor>vy v / cellSize\<rfloor>;
          dx = \<bar>bx - ax\<bar>;
          dy = - \<bar>by - ay\<bar>;
          sx = (if ax < bx then 1 else -1);
          sy = (if ay < by then 1 else -1);
          err = dx + dy
      in markLoop w h bx by dx dy sx sy err ax ay occupied)"

fun markSegments :: "int \<Rightarrow> int \<Rightarrow> real \<Rightarrow> segment list \<Rightarrow> cell set \<Rightarrow> cell set option" where
  "markSegments w h cellSize [] occupied = Some occupied"
| "markSegments w h cellSize (seg # segs) occupied =
     (case markSegment w h cellSize (seg_a seg) (seg_b seg) occupied of
        None \<Rightarrow> None
      | Some occ1 \<Rightarrow> markSegments w h cellSize segs occ1)"

definition buildOccupiedGrid :: "engine \<Rightarrow> int \<Rightarrow> int \<Rightarrow> real \<Rightarrow> cell set option" where
  "buildOccupiedGrid e w h cellSize =
     (case markSegments w h cellSize (segments (player e)) {} of
        None \<Rightarrow> None
      | Some occ1 \<Rightarrow> markSegments w h cellSize (segments (ai e)) occ1)"

text \<open>
  \<open>applyGridMove\<close> has three optional parameters and adds the new cell to the set it is
  given; the model returns that set beside the new grid state. Both callers pass a fresh
  copy (\<open>new Set(occupied)\<close>) and drop it.
\<close>

definition applyGridMove ::
  "gridState \<Rightarrow> gvec \<Rightarrow> cell set option \<Rightarrow> int option \<Rightarrow> int option
     \<Rightarrow> gridState \<times> cell set option" where
  "applyGridMove state d occupied w h =
     (let next = \<lparr> gx = gx state + gvx d, gy = gy state + gvy d, gdir = d, dead = dead state \<rparr>
      in case (occupied, w, h) of
           (Some occ, Some w', Some h') \<Rightarrow>
             if gx next < 0 \<or> gy next < 0 \<or> gx next \<ge> w' \<or> gy next \<ge> h'
               then (next\<lparr> dead := True \<rparr>, Some occ)
             else if (gx next, gy next) \<in> occ then (next\<lparr> dead := True \<rparr>, Some occ)
             else (next, Some (insert (gx next, gy next) occ))
         | _ \<Rightarrow> (next, occupied))"

function gridClearanceLoop ::
  "gridState \<Rightarrow> int \<Rightarrow> int \<Rightarrow> cell set \<Rightarrow> int \<Rightarrow> cell \<Rightarrow> int \<Rightarrow> int" where
  "gridClearanceLoop state w h occupied maxSteps p steps =
     (if steps < maxSteps
      then if fst p + gvx (gdir state) < 0 \<or> snd p + gvy (gdir state) < 0 \<or>
              fst p + gvx (gdir state) \<ge> w \<or> snd p + gvy (gdir state) \<ge> h then steps
           else if (fst p + gvx (gdir state), snd p + gvy (gdir state)) \<in> occupied then steps
           else gridClearanceLoop state w h occupied maxSteps
                  (fst p + gvx (gdir state), snd p + gvy (gdir state)) (steps + 1)
      else steps)"
  by pat_completeness auto
termination
  by (relation "measure (\<lambda>(state, w, h, occupied, maxSteps, p, steps). nat (maxSteps - steps))")
     auto

definition gridClearance :: "gridState \<Rightarrow> int \<Rightarrow> int \<Rightarrow> cell set \<Rightarrow> int \<Rightarrow> int" where
  "gridClearance state w h occupied maxSteps =
     gridClearanceLoop state w h occupied maxSteps (gx state, gy state) 0"

fun countMoves :: "gridState \<Rightarrow> cell set \<Rightarrow> int \<Rightarrow> int \<Rightarrow> gvec list \<Rightarrow> int \<Rightarrow> int" where
  "countMoves state occupied w h [] count = count"
| "countMoves state occupied w h (m # ms) count =
     (let nx = gx state + gvx m; ny = gy state + gvy m
      in if nx < 0 \<or> ny < 0 \<or> nx \<ge> w \<or> ny \<ge> h then countMoves state occupied w h ms count
         else if (nx, ny) \<in> occupied then countMoves state occupied w h ms count
         else countMoves state occupied w h ms (count + 1))"

definition gridMovesCount :: "gridState \<Rightarrow> cell set \<Rightarrow> int \<Rightarrow> int \<Rightarrow> int" where
  "gridMovesCount state occupied w h = countMoves state occupied w h (getGridMoves (gdir state)) 0"

text \<open>
  The flood fill. \<open>states\<close> is a JavaScript \<open>Map\<close>: an association list in insertion
  order, where setting a key that is present replaces its value in place. The queue loop is
  unbounded in the source, so it is a partial function as well.
\<close>

fun mapSet :: "('k \<times> 'v) list \<Rightarrow> 'k \<Rightarrow> 'v \<Rightarrow> ('k \<times> 'v) list" where
  "mapSet [] k v = [(k, v)]"
| "mapSet ((k', v') # kvs) k v = (if k' = k then (k', v) # kvs else (k', v') # mapSet kvs k v)"

definition neighbors :: "cell \<Rightarrow> cell list" where
  "neighbors c = [(fst c + 1, snd c), (fst c - 1, snd c), (fst c, snd c + 1), (fst c, snd c - 1)]"

partial_function (option) voronoiLoop ::
  "cell set \<Rightarrow> int \<Rightarrow> int \<Rightarrow> (cell \<times> owner) list \<Rightarrow> (cell \<times> owner) list
     \<Rightarrow> (cell \<times> owner) list option" where
  "voronoiLoop occupied w h states queue =
     (case queue of
        [] \<Rightarrow> Some states
      | current # rest \<Rightarrow>
          (case map_of states (fst current) of
             Some existing \<Rightarrow>
               voronoiLoop occupied w h
                 (if existing \<noteq> snd current then mapSet states (fst current) Neutral else states)
                 rest
           | None \<Rightarrow>
               voronoiLoop occupied w h
                 (mapSet states (fst current) (snd current))
                 (rest @ map (\<lambda>n. (n, snd current))
                           (filter (\<lambda>n. inGrid w h n \<and> n \<notin> occupied) (neighbors (fst current))))))"

declare voronoiLoop.simps [code]

definition gridVoronoiDiff ::
  "gridState \<Rightarrow> gridState \<Rightarrow> cell set \<Rightarrow> int \<Rightarrow> int \<Rightarrow> int option" where
  "gridVoronoiDiff a p occupied w h =
     (case voronoiLoop occupied w h [] [((gx a, gy a), OwnAi), ((gx p, gy p), OwnPlayer)] of
        None \<Rightarrow> None
      | Some states \<Rightarrow>
          Some (int (length (filter (\<lambda>kv. snd kv = OwnAi) states))
                - int (length (filter (\<lambda>kv. snd kv = OwnPlayer) states))))"

subsection \<open>The opponent's decision\<close>

text \<open>
  The \<open>for\<close> loop over the candidate moves, with \<open>bestDir\<close> and \<open>bestScore\<close> as
  accumulators. \<open>bestDir = null\<close> is \<open>None\<close>; \<open>bestScore = -Infinity\<close> is \<open>None\<close> as
  well, and every score, a finite number, is greater than it.
\<close>

fun scoreMoves ::
  "gridState \<Rightarrow> gridState \<Rightarrow> cell set \<Rightarrow> int \<Rightarrow> int \<Rightarrow> int \<Rightarrow> gvec list
     \<Rightarrow> gvec option \<Rightarrow> real option \<Rightarrow> (gvec option \<times> real option) option" where
  "scoreMoves aiState playerState occupied gridW gridH minShort [] bestDir bestScore =
     Some (bestDir, bestScore)"
| "scoreMoves aiState playerState occupied gridW gridH minShort (move # rest) bestDir bestScore =
     (let nextAi = fst (applyGridMove aiState move (Some occupied) (Some gridW) (Some gridH))
      in if dead nextAi
         then scoreMoves aiState playerState occupied gridW gridH minShort rest bestDir bestScore
         else let shortClear = gridClearance nextAi gridW gridH occupied minShort
              in if shortClear < 2
                 then scoreMoves aiState playerState occupied gridW gridH minShort rest
                        bestDir bestScore
                 else case gridVoronoiDiff nextAi playerState occupied gridW gridH of
                        None \<Rightarrow> None
                      | Some vor \<Rightarrow>
                          let mob = gridMovesCount nextAi occupied gridW gridH;
                              score = real_of_int vor * 2.5 + real_of_int mob * 0.5
                                        + real_of_int shortClear * 0.3
                          in if (case bestScore of None \<Rightarrow> True | Some b \<Rightarrow> score > b)
                             then scoreMoves aiState playerState occupied gridW gridH minShort rest
                                    (Some move) (Some score)
                             else scoreMoves aiState playerState occupied gridW gridH minShort rest
                                    bestDir bestScore)"

definition minTurnDistance :: "engine \<Rightarrow> real" where
  "minTurnDistance e =
     120 + speed e * 0.25 *
       (if difficulty e = Hard then 1.0 else if difficulty e = Normal then 0.9 else 0.8)"

definition turnCooldown :: "engine \<Rightarrow> bool" where
  "turnCooldown e = (aiDistanceSinceTurn e < minTurnDistance e)"

definition gridOf :: "real \<Rightarrow> player_state \<Rightarrow> gridState" where
  "gridOf cellSize p =
     \<lparr> gx = \<lfloor>vx (pos p) / cellSize\<rfloor>, gy = \<lfloor>vy (pos p) / cellSize\<rfloor>,
       gdir = vectorToGridDir (dir p), dead = False \<rparr>"

text \<open>
  The result is \<open>None\<close> when one of the loops does not end, \<open>Some None\<close> for the
  source's \<open>null\<close> and \<open>Some (Some d)\<close> for a direction.
\<close>

definition decideAiDirection :: "difficulty_config \<Rightarrow> engine \<Rightarrow> vec option option" where
  "decideAiDirection config e =
     (let cellSize = VORONOI_STEP;
          gridW = max 4 \<lfloor>width e / cellSize\<rfloor>;
          gridH = max 4 \<lfloor>height e / cellSize\<rfloor>
      in case buildOccupiedGrid e gridW gridH cellSize of
           None \<Rightarrow> None
         | Some occupied \<Rightarrow>
             let aiState = gridOf cellSize (ai e);
                 playerState = gridOf cellSize (player e);
                 moves = getGridMoves (gdir aiState);
                 minShort = minShortClear config
             in case scoreMoves aiState playerState occupied gridW gridH minShort moves None None of
                  None \<Rightarrow> None
                | Some (bestDir, bestScore) \<Rightarrow>
                    if turnCooldown e
                    then let forward = moves ! 0
                         in if (case bestDir of None \<Rightarrow> False
                                | Some b \<Rightarrow> isSameGridDir forward b)
                            then Some (map_option gridDirToVec bestDir)
                            else let forwardState =
                                       fst (applyGridMove aiState forward (Some occupied)
                                              (Some gridW) (Some gridH));
                                     forwardShort =
                                       gridClearance forwardState gridW gridH occupied minShort
                                 in if \<not> dead forwardState \<and> forwardShort \<ge> 2
                                    then Some (Some (gridDirToVec forward))
                                    else Some (map_option gridDirToVec bestDir)
                    else Some (map_option gridDirToVec bestDir))"

definition updateAI :: "real \<Rightarrow> engine \<Rightarrow> engine option" where
  "updateAI delta e =
     (let e1 = e\<lparr> aiDecisionTimer := aiDecisionTimer e - delta \<rparr>
      in if aiDecisionTimer e1 > 0 then Some e1
         else let config = DIFFICULTY_CONFIG (difficulty e1);
                  e2 = e1\<lparr> aiDecisionTimer := decisionInterval config \<rparr>
              in case decideAiDirection config e2 of
                   None \<Rightarrow> None
                 | Some None \<Rightarrow> Some e2
                 | Some (Some chosen) \<Rightarrow>
                     if \<not> isSameDirection (dir (ai e2)) chosen
                     then Some (applyDirection Ai chosen e2)
                     else Some e2)"

subsection \<open>The tick\<close>

definition shrinkStep :: "real \<Rightarrow> shrink \<Rightarrow> shrink" where
  "shrinkStep delta st =
     (if \<not> active st then st
      else if delay st > 0 then st\<lparr> delay := max 0 (delay st - delta) \<rparr>
      else let st1 = st\<lparr> progress := min 1 (progress st + delta / WALL_SHRINK_DURATION) \<rparr>
           in if progress st1 \<ge> 1 then st1\<lparr> active := False \<rparr> else st1)"

definition updateWallShrink :: "real \<Rightarrow> engine \<Rightarrow> engine" where
  "updateWallShrink delta e =
     e\<lparr> wallShrinkPlayer := shrinkStep delta (wallShrinkPlayer e),
        wallShrinkAi := shrinkStep delta (wallShrinkAi e) \<rparr>"

fun startWallShrink :: "agent_id \<Rightarrow> engine \<Rightarrow> engine" where
  "startWallShrink Player e =
     e\<lparr> wallShrinkPlayer := \<lparr> delay = CRASH_FLASH_DURATION, progress = 0, active = True \<rparr> \<rparr>"
| "startWallShrink Ai e =
     e\<lparr> wallShrinkAi := \<lparr> delay = CRASH_FLASH_DURATION, progress = 0, active = True \<rparr> \<rparr>"

text \<open>The part of \<open>update\<close> that runs whether or not a round is running.\<close>

definition updateTimers :: "real \<Rightarrow> engine \<Rightarrow> engine" where
  "updateTimers delta e =
     updateWallShrink delta
       (e\<lparr> crashTimerPlayer := max 0 (crashTimerPlayer e - delta),
           crashTimerAi := max 0 (crashTimerAi e - delta) \<rparr>)"

definition updateSpeed :: "real \<Rightarrow> engine \<Rightarrow> engine" where
  "updateSpeed delta e =
     (let e1 = e\<lparr> speedTimer := speedTimer e + delta \<rparr>
      in if speedTimer e1 \<ge> SPEED_INTERVAL
         then let steps = real_of_int \<lfloor>speedTimer e1 / SPEED_INTERVAL\<rfloor>
              in e1\<lparr> speed := min MAX_SPEED (speed e1 + steps * SPEED_STEP),
                     speedTimer := speedTimer e1 - steps * SPEED_INTERVAL \<rparr>
         else e1)"

definition moveDistance :: "real \<Rightarrow> engine \<Rightarrow> real" where
  "moveDistance delta e = speed e * delta"

definition nextPos :: "real \<Rightarrow> engine \<Rightarrow> player_state \<Rightarrow> vec" where
  "nextPos delta e p =
     Vec (vx (pos p) + vx (dir p) * moveDistance delta e)
         (vy (pos p) + vy (dir p) * moveDistance delta e)"

text \<open>
  The two \<open>extendSegment\<close> calls of \<open>update\<close>, after both next positions have been
  computed.
\<close>

definition commitMoves :: "real \<Rightarrow> engine \<Rightarrow> error + engine" where
  "commitMoves delta e =
     (let e1 = e\<lparr> aiDistanceSinceTurn := aiDistanceSinceTurn e + moveDistance delta e \<rparr>;
          nextPlayerPos = nextPos delta e (player e);
          nextAiPos = nextPos delta e (ai e)
      in case extendSegment (player e1) nextPlayerPos of
           Inl err \<Rightarrow> Inl err
         | Inr p \<Rightarrow>
             (case extendSegment (ai e1) nextAiPos of
                Inl err \<Rightarrow> Inl err
              | Inr a \<Rightarrow> Inr (e1\<lparr> player := p, ai := a \<rparr>)))"

text \<open>
  The three tests of \<open>update\<close>, made on the engine after both \<open>extendSegment\<close> calls,
  and the branch on them.
\<close>

definition playerHit :: "vec \<Rightarrow> engine \<Rightarrow> bool" where
  "playerHit nextPlayerPos e = checkCollision e nextPlayerPos (player e) (ai e) 0"

definition aiHit :: "vec \<Rightarrow> engine \<Rightarrow> bool" where
  "aiHit nextAiPos e = checkCollision e nextAiPos (ai e) (player e) 0"

definition headHit :: "vec \<Rightarrow> vec \<Rightarrow> bool" where
  "headHit nextPlayerPos nextAiPos = (distance nextPlayerPos nextAiPos \<le> COLLISION_RADIUS * 2)"

definition resolveCollisions :: "vec \<Rightarrow> vec \<Rightarrow> engine \<Rightarrow> engine" where
  "resolveCollisions nextPlayerPos nextAiPos e =
     (if headHit nextPlayerPos nextAiPos \<or> (playerHit nextPlayerPos e \<and> aiHit nextAiPos e)
      then endRound ResTie
             (e\<lparr> crashTimerPlayer := CRASH_FLASH_DURATION,
                 crashTimerAi := CRASH_FLASH_DURATION,
                 crashedPlayer := True,
                 crashedAi := True \<rparr>)
      else if playerHit nextPlayerPos e
      then endRound ResAi
             (startWallShrink Player
                (e\<lparr> crashTimerPlayer := CRASH_FLASH_DURATION, crashedPlayer := True \<rparr>))
      else if aiHit nextAiPos e
      then endRound ResPlayer
             (startWallShrink Ai
                (e\<lparr> crashTimerAi := CRASH_FLASH_DURATION, crashedAi := True \<rparr>))
      else e)"

text \<open>
  \<open>update\<close>: \<open>None\<close> when a loop of the opponent's decision does not end,
  \<open>Some (Inl TypeError)\<close> when \<open>extendSegment\<close> throws, \<open>Some (Inr e')\<close> otherwise.
\<close>

definition update :: "real \<Rightarrow> engine \<Rightarrow> (error + engine) option" where
  "update delta e =
     (let e0 = updateTimers delta e
      in if \<not> running e0 \<or> paused e0 then Some (Inr e0)
         else case updateAI delta (updateSpeed delta e0) of
                None \<Rightarrow> None
              | Some e2 \<Rightarrow>
                  (case commitMoves delta e2 of
                     Inl err \<Rightarrow> Some (Inl err)
                   | Inr e4 \<Rightarrow>
                       Some (Inr (resolveCollisions (nextPos delta e2 (player e2))
                                                    (nextPos delta e2 (ai e2)) e4))))"

subsection \<open>Calls from outside\<close>

text \<open>
  The public methods, and the frame callback with its elapsed time, as a datatype of calls.
  \<open>performAll\<close> makes the calls of a list in order and stops at the first one that does
  not return normally.
\<close>

datatype call =
    Tick real
  | SetPlayerDirection direction
  | Pause
  | Resume
  | SetDifficulty difficulty
  | Resize real real
  | StartRound
  | Reset

fun perform :: "call \<Rightarrow> engine \<Rightarrow> (error + engine) option" where
  "perform (Tick delta) e = update delta e"
| "perform (SetPlayerDirection d) e = Some (Inr (setPlayerDirection d e))"
| "perform Pause e = Some (Inr (pause e))"
| "perform Resume e = Some (Inr (resume e))"
| "perform (SetDifficulty level) e = Some (Inr (setDifficulty level e))"
| "perform (Resize w h) e = Some (Inr (resize w h e))"
| "perform StartRound e = Some (Inr (startRound e))"
| "perform Reset e = Some (Inr (reset e))"

fun performAll :: "call list \<Rightarrow> engine \<Rightarrow> (error + engine) option" where
  "performAll [] e = Some (Inr e)"
| "performAll (c # cs) e =
     (case perform c e of
        None \<Rightarrow> None
      | Some (Inl err) \<Rightarrow> Some (Inl err)
      | Some (Inr e1) \<Rightarrow> performAll cs e1)"

text \<open>The number of calls of the round-end callback so far.\<close>

definition roundEnds :: "engine \<Rightarrow> nat" where
  "roundEnds e =
     length (filter (\<lambda>c. case c of OnRoundEnd r \<Rightarrow> True | OnTurn w \<Rightarrow> False) (calls e))"

subsection \<open>Vocabulary of the statements\<close>

text \<open>
  A candidate move survives the loop of \<open>decideAiDirection\<close> when it passes both
  \<open>continue\<close> tests: the moved state is not dead and its clearance is at least 2.
\<close>

definition survives :: "gridState \<Rightarrow> cell set \<Rightarrow> int \<Rightarrow> int \<Rightarrow> int \<Rightarrow> gvec \<Rightarrow> bool" where
  "survives a occ W H minShort m \<longleftrightarrow>
     \<not> dead (fst (applyGridMove a m (Some occ) (Some W) (Some H))) \<and>
     gridClearance (fst (applyGridMove a m (Some occ) (Some W) (Some H))) W H occ minShort \<ge> 2"

subsection \<open>Concrete engine states\<close>

text \<open>
  A round on an 800 by 600 arena in which neither agent has turned: the player has reached
  \<open>x = px\<close>, the opponent \<open>x = ax\<close>, and the opponent's next decision is 0.1 s away.
\<close>

definition duelState :: "real \<Rightarrow> real \<Rightarrow> engine" where
  "duelState px ax =
     (startRound (newEngine 800 600))
       \<lparr> player := \<lparr> ident = Player, pos = Vec px 300, dir = DIRECTION_VECTORS Right,
                     color = COLOR_player, segments = [Segment (Vec 80 300) (Vec px 300)] \<rparr>,
         ai := \<lparr> ident = Ai, pos = Vec ax 300, dir = DIRECTION_VECTORS Left,
                 color = COLOR_ai, segments = [Segment (Vec 720 300) (Vec ax 300)] \<rparr>,
         aiDecisionTimer := 0.1 \<rparr>"

text \<open>
  A round on the same arena in which the player has turned up at its spawn point and right
  at \<open>y = 207\<close>, and the opponent has turned up at \<open>x = 400\<close>: the player approaches the
  opponent's path from the left, 18 pixels away.
\<close>

definition crossingState :: engine where
  "crossingState =
     (startRound (newEngine 800 600))
       \<lparr> player := \<lparr> ident = Player, pos = Vec 382 207, dir = DIRECTION_VECTORS Right,
                     color = COLOR_player,
                     segments = [Segment (Vec 80 300) (Vec 80 300),
                                 Segment (Vec 80 300) (Vec 80 207),
                                 Segment (Vec 80 207) (Vec 382 207)] \<rparr>,
         ai := \<lparr> ident = Ai, pos = Vec 400 210, dir = DIRECTION_VECTORS Up,
                 color = COLOR_ai,
                 segments = [Segment (Vec 720 300) (Vec 400 300),
                             Segment (Vec 400 300) (Vec 400 210)] \<rparr>,
         aiDecisionTimer := 0.1 \<rparr>"

text \<open>
  The state reached from \<open>duelState 200 600\<close> when the player turns up, moves for 1/80 s
  (3 pixels) and turns left: a tight U-turn, seen right after the second turn.
\<close>

definition uTurnState :: engine where
  "uTurnState =
     (duelState 200 597)
       \<lparr> player := \<lparr> ident = Player, pos = Vec 200 297, dir = DIRECTION_VECTORS Left,
                     color = COLOR_player,
                     segments = [Segment (Vec 80 300) (Vec 200 300),
                                 Segment (Vec 200 300) (Vec 200 297),
                                 Segment (Vec 200 297) (Vec 200 297)] \<rparr>,
         speedTimer := 0.0125, aiDecisionTimer := 0.0875, aiDistanceSinceTurn := 3,
         calls := [OnTurn Player, OnTurn Player] \<rparr>"

text \<open>
  A round just started on a 172 by 144 arena with a distance of 1000 carried over from the
  round before: no turn cooldown, and the opponent's first decision is a turn.
\<close>

definition turnState :: engine where
  "turnState = startRound ((newEngine 172 144)\<lparr> aiDistanceSinceTurn := 1000 \<rparr>)"

section \<open>Properties\<close>

subsection \<open>The loops of the opponent's decision end\<close>

lemma markLoop_returns:
  fixes rx ry dx Dy :: int
  assumes "0 \<le> rx" "rx \<le> dx" "0 \<le> ry" "ry \<le> Dy" "sx = 1 \<or> sx = -1" "sy = 1 \<or> sy = -1"
  shows "\<exists>r. markLoop w h bx by dx (- Dy) sx sy (dx - Dy + Dy * rx - dx * ry)
               (bx - sx * rx) (by - sy * ry) occ = Some r"
  using assms
proof (induction "nat (rx + ry)" arbitrary: rx ry occ rule: less_induct)
  case less
  let ?err = "dx - Dy + Dy * rx - dx * ry"
  let ?occ1 = "(if bx - sx * rx \<ge> 0 \<and> by - sy * ry \<ge> 0 \<and> bx - sx * rx < w \<and> by - sy * ry < h
                then insert (bx - sx * rx, by - sy * ry) occ else occ)"
  show ?case
  proof (cases "rx = 0 \<and> ry = 0")
    case True
    then show ?thesis by (subst markLoop.simps) simp
  next
    case False
    have ne: "\<not> (bx - sx * rx = bx \<and> by - sy * ry = by)"
      using False less.prems(5,6) by auto
    have xstep: "2 * ?err \<ge> - Dy \<Longrightarrow> rx > 0"
    proof (rule ccontr)
      assume a: "2 * ?err \<ge> - Dy" and "\<not> rx > 0"
      then have rx0: "rx = 0" using less.prems(1) by simp
      then have ry1: "ry \<ge> 1" using False less.prems(3) by simp
      have "dx * ry \<ge> dx * 1" using ry1 less.prems(1,2) by (intro mult_left_mono) auto
      then show False using a rx0 ry1 less.prems(4) by simp
    qed
    have ystep: "2 * ?err \<le> dx \<Longrightarrow> ry > 0"
    proof (rule ccontr)
      assume a: "2 * ?err \<le> dx" and "\<not> ry > 0"
      then have ry0: "ry = 0" using less.prems(3) by simp
      then have rx1: "rx \<ge> 1" using False less.prems(1) by simp
      have "Dy * rx \<ge> Dy * 1" using rx1 less.prems(3,4) by (intro mult_left_mono) auto
      then show False using a ry0 rx1 less.prems(2) by simp
    qed
    have some: "2 * ?err \<ge> - Dy \<or> 2 * ?err \<le> dx"
      using less.prems by linarith
    define rx' where "rx' = (if 2 * ?err \<ge> - Dy then rx - 1 else rx)"
    define ry' where "ry' = (if 2 * ?err \<le> dx then ry - 1 else ry)"
    have bounds: "0 \<le> rx'" "rx' \<le> dx" "0 \<le> ry'" "ry' \<le> Dy"
      using xstep ystep less.prems(1-4) by (auto simp: rx'_def ry'_def)
    have dec: "nat (rx' + ry') < nat (rx + ry)"
      using some xstep ystep less.prems(1,3) by (auto simp: rx'_def ry'_def)
    have step: "markLoop w h bx by dx (- Dy) sx sy ?err (bx - sx * rx) (by - sy * ry) occ
        = markLoop w h bx by dx (- Dy) sx sy (dx - Dy + Dy * rx' - dx * ry')
               (bx - sx * rx') (by - sy * ry') ?occ1"
      apply (subst markLoop.simps)
      using ne apply (simp only: Let_def if_False)
      apply (simp add: rx'_def ry'_def algebra_simps)
      done
    from less.hyps [OF dec bounds less.prems(5,6), of ?occ1]
    show ?thesis unfolding step .
  qed
qed

lemma markSegment_returns: "\<exists>r. markSegment w h cellSize u v occ = Some r"
proof -
  define ax ay bx "by" where "ax = \<lfloor>vx u / cellSize\<rfloor>" and "ay = \<lfloor>vy u / cellSize\<rfloor>"
    and "bx = \<lfloor>vx v / cellSize\<rfloor>" and "by = \<lfloor>vy v / cellSize\<rfloor>"
  define sx sy :: int where "sx = (if ax < bx then 1 else -1)" and "sy = (if ay < by then 1 else -1)"
  have x: "ax = bx - sx * \<bar>bx - ax\<bar>" and y: "ay = by - sy * \<bar>by - ay\<bar>"
    by (auto simp: sx_def sy_def)
  have e: "\<bar>bx - ax\<bar> + - \<bar>by - ay\<bar> = \<bar>bx - ax\<bar> - \<bar>by - ay\<bar> + \<bar>by - ay\<bar> * \<bar>bx - ax\<bar> - \<bar>bx - ax\<bar> * \<bar>by - ay\<bar>"
    by (simp add: algebra_simps)
  have "\<exists>r. markLoop w h bx by \<bar>bx - ax\<bar> (- \<bar>by - ay\<bar>) sx sy
         (\<bar>bx - ax\<bar> - \<bar>by - ay\<bar> + \<bar>by - ay\<bar> * \<bar>bx - ax\<bar> - \<bar>bx - ax\<bar> * \<bar>by - ay\<bar>)
         (bx - sx * \<bar>bx - ax\<bar>) (by - sy * \<bar>by - ay\<bar>) occ = Some r"
    by (rule markLoop_returns) (auto simp: sx_def sy_def)
  then show ?thesis
    unfolding markSegment_def Let_def ax_def [symmetric] ay_def [symmetric] bx_def [symmetric]
      by_def [symmetric] sx_def [symmetric] sy_def [symmetric]
    using x y e by simp
qed

lemma markSegments_returns: "\<exists>r. markSegments w h cellSize segs occ = Some r"
proof (induction segs arbitrary: occ)
  case Nil
  show ?case by simp
next
  case (Cons seg segs)
  obtain occ1 where "markSegment w h cellSize (seg_a seg) (seg_b seg) occ = Some occ1"
    using markSegment_returns by blast
  then show ?case using Cons.IH [of occ1] by simp
qed

lemma buildOccupiedGrid_returns: "\<exists>r. buildOccupiedGrid e w h cellSize = Some r"
proof -
  obtain occ1 where "markSegments w h cellSize (segments (player e)) {} = Some occ1"
    using markSegments_returns by blast
  then show ?thesis
    using markSegments_returns [of w h cellSize "segments (ai e)" occ1]
    by (simp add: buildOccupiedGrid_def)
qed

lemma keys_mapSet: "fst ` set (mapSet kvs k v) = insert k (fst ` set kvs)"
proof (induction kvs)
  case Nil
  show ?case by simp
next
  case (Cons kv kvs)
  obtain k' v' where kv: "kv = (k', v')" by (cases kv)
  show ?case using Cons.IH by (cases "k' = k") (simp_all add: kv insert_commute)
qed

lemma map_of_None_iff: "map_of kvs k = None \<longleftrightarrow> k \<notin> fst ` set kvs"
  by (simp add: map_of_eq_None_iff)

lemma finite_inGrid: "finite {c. inGrid w h c}"
proof -
  have "{c. inGrid w h c} \<subseteq> {0..<w} \<times> {0..<h}"
    by (auto simp: inGrid_def)
  then show ?thesis by (rule finite_subset) simp
qed

lemma voronoiLoop_returns:
  assumes "finite U" and "{c. inGrid w h c} \<subseteq> U"
  shows "fst ` set queue \<subseteq> U \<Longrightarrow> \<exists>r. voronoiLoop occ w h states queue = Some r"
proof (induction "4 * card (U - fst ` set states) + length queue" arbitrary: states queue
        rule: less_induct)
  case less
  show ?case
  proof (cases queue)
    case Nil
    then show ?thesis by (subst voronoiLoop.simps) simp
  next
    case (Cons current rest)
    have restU: "fst ` set rest \<subseteq> U" and curU: "fst current \<in> U"
      using less.prems Cons by auto
    show ?thesis
    proof (cases "map_of states (fst current)")
      case (Some existing)
      define states' where
        "states' = (if existing \<noteq> snd current then mapSet states (fst current) Neutral else states)"
      have "fst current \<in> fst ` set states"
        using Some map_of_None_iff [of states "fst current"] by auto
      then have keys: "fst ` set states' = fst ` set states"
        by (simp add: states'_def keys_mapSet insert_absorb)
      have step: "voronoiLoop occ w h states queue = voronoiLoop occ w h states' rest"
        by (subst voronoiLoop.simps) (simp add: Cons Some states'_def)
      have "4 * card (U - fst ` set states') + length rest
              < 4 * card (U - fst ` set states) + length queue"
        by (simp add: keys Cons)
      from less.hyps [OF this restU] show ?thesis unfolding step .
    next
      case None
      define states' where "states' = mapSet states (fst current) (snd current)"
      define nbs where
        "nbs = filter (\<lambda>n. inGrid w h n \<and> n \<notin> occ) (neighbors (fst current))"
      define queue' where "queue' = rest @ map (\<lambda>n. (n, snd current)) nbs"
      have step: "voronoiLoop occ w h states queue = voronoiLoop occ w h states' queue'"
        by (subst voronoiLoop.simps) (simp add: Cons None states'_def queue'_def nbs_def)
      have notin: "fst current \<notin> fst ` set states"
        using None map_of_None_iff [of states "fst current"] by simp
      have keys: "fst ` set states' = insert (fst current) (fst ` set states)"
        by (simp add: states'_def keys_mapSet)
      have d: "U - fst ` set states' = (U - fst ` set states) - {fst current}"
        unfolding keys by auto
      have "fst current \<in> U - fst ` set states" using curU notin by simp
      moreover have "finite (U - fst ` set states)" using assms(1) by simp
      ultimately have card: "card (U - fst ` set states') < card (U - fst ` set states)"
        unfolding d by (rule card_Diff1_less [rotated])
      have "length nbs \<le> length (neighbors (fst current))"
        unfolding nbs_def by (rule length_filter_le)
      then have len: "length nbs \<le> 4" by (simp add: neighbors_def)
      have m: "4 * card (U - fst ` set states') + length queue'
              < 4 * card (U - fst ` set states) + length queue"
        using card len unfolding queue'_def Cons by simp
      have "set nbs \<subseteq> {c. inGrid w h c}" by (auto simp: nbs_def)
      then have "fst ` set queue' \<subseteq> U"
        using restU assms(2) by (auto simp: queue'_def image_Un image_image)
      from less.hyps [OF m this] show ?thesis unfolding step .
    qed
  qed
qed

lemma gridVoronoiDiff_returns: "\<exists>r. gridVoronoiDiff a p occ w h = Some r"
proof -
  define U where "U = {c. inGrid w h c} \<union> {(gx a, gy a), (gx p, gy p)}"
  have f: "finite U" by (simp add: U_def finite_inGrid)
  have g: "{c. inGrid w h c} \<subseteq> U" unfolding U_def by (rule Un_upper1)
  have q: "fst ` set [((gx a, gy a), OwnAi), ((gx p, gy p), OwnPlayer)] \<subseteq> U"
    by (simp add: U_def)
  from voronoiLoop_returns [OF f g q, of occ "[]"] obtain r where
    "voronoiLoop occ w h [] [((gx a, gy a), OwnAi), ((gx p, gy p), OwnPlayer)] = Some r" ..
  then show ?thesis by (simp add: gridVoronoiDiff_def)
qed

subsection \<open>Directions\<close>

lemma isOpposite_DIRECTION_VECTORS:
  "isOpposite (DIRECTION_VECTORS c) (DIRECTION_VECTORS d) \<longleftrightarrow>
     DIRECTION_VECTORS d = Vec (- vx (DIRECTION_VECTORS c)) (- vy (DIRECTION_VECTORS c))"
  by (cases c; cases d; simp add: isOpposite_def)

lemma isSameDirection_DIRECTION_VECTORS:
  "isSameDirection (DIRECTION_VECTORS c) (DIRECTION_VECTORS d) \<longleftrightarrow> d = c"
  by (cases c; cases d; simp add: isSameDirection_def)

lemma perpendicular_DIRECTION_VECTORS:
  "vx (DIRECTION_VECTORS c) * vx (DIRECTION_VECTORS d)
     + vy (DIRECTION_VECTORS c) * vy (DIRECTION_VECTORS d) = 0 \<longleftrightarrow>
   \<not> isOpposite (DIRECTION_VECTORS c) (DIRECTION_VECTORS d) \<and>
   \<not> isSameDirection (DIRECTION_VECTORS c) (DIRECTION_VECTORS d)"
  by (cases c; cases d; simp add: isOpposite_def isSameDirection_def)

lemma applyDirection_Player:
  "ident (player e) = Player \<Longrightarrow>
   applyDirection Player v e =
     e\<lparr> player := (player e)\<lparr> dir := v,
                                segments := segments (player e) @ [Segment (pos (player e)) (pos (player e))] \<rparr>,
        calls := calls e @ [OnTurn Player] \<rparr>"
  by (simp add: applyDirection_def Let_def)

lemma setPlayerDirection_turn:
  "running e \<Longrightarrow> \<not> isOpposite (dir (player e)) (DIRECTION_VECTORS d) \<Longrightarrow>
   \<not> isSameDirection (dir (player e)) (DIRECTION_VECTORS d) \<Longrightarrow>
   setPlayerDirection d e = applyDirection Player (DIRECTION_VECTORS d) e"
  by (simp add: setPlayerDirection_def Let_def)

lemma setPlayerDirection_reject:
  "isOpposite (dir (player e)) (DIRECTION_VECTORS d) \<or>
   isSameDirection (dir (player e)) (DIRECTION_VECTORS d) \<Longrightarrow>
   setPlayerDirection d e = e"
  by (auto simp: setPlayerDirection_def Let_def)

lemma startRound_fields:
  "running (startRound e)" "\<not> paused (startRound e)"
  "ident (player (startRound e)) = Player" "ident (ai (startRound e)) = Ai"
  "dir (player (startRound e)) = DIRECTION_VECTORS Right"
  "dir (ai (startRound e)) = DIRECTION_VECTORS Left"
  "segments (player (startRound e)) \<noteq> []" "segments (ai (startRound e)) \<noteq> []"
  "calls (startRound e) = calls e"
  by (simp_all add: startRound_def resetRoundState_def Let_def)

lemma pause_fields:
  "running (pause e) = running e" "player (pause e) = player e" "ai (pause e) = ai e"
  "running e \<Longrightarrow> paused (pause e)"
  by (simp_all add: pause_def)

subsection \<open>Cell size of the grid\<close>

text \<open>
  C6 (amended). The cell size of the opponent's grid is twice the sum of the full trail
  width, the collision radius and the collision tolerance: with the engine's constants
  \<open>2 \<times> (6 + 5 + 1) = 24\<close>. The trail width enters in full, not halved.
\<close>

theorem cell_size_full_trail_width:
  "VORONOI_STEP = 2 * (TRAIL_WIDTH + COLLISION_RADIUS + COLLISION_TOLERANCE) \<and>
   TRAIL_WIDTH = 6 \<and> COLLISION_RADIUS = 5 \<and> COLLISION_TOLERANCE = 1 \<and> VORONOI_STEP = 24"
  by (simp add: VORONOI_STEP_def TRAIL_WIDTH_def COLLISION_RADIUS_def COLLISION_TOLERANCE_def)

text \<open>
  C6 as stated fails: the cell size is neither \<open>2 \<times> (half-width + radius + tolerance)\<close>
  nor 18.
\<close>

theorem cell_size_half_width_counterexample:
  "VORONOI_STEP \<noteq> 2 * (TRAIL_WIDTH / 2 + COLLISION_RADIUS + COLLISION_TOLERANCE) \<and>
   VORONOI_STEP \<noteq> 18"
  by (simp add: VORONOI_STEP_def TRAIL_WIDTH_def COLLISION_RADIUS_def COLLISION_TOLERANCE_def)

subsection \<open>Player input\<close>

text \<open>
  C8. Let the player move in direction \<open>c\<close>. A call of \<open>setPlayerDirection\<close> with \<open>c\<close>
  itself or with the direction opposite to \<open>c\<close> changes nothing: the engine state, and so
  the player's direction and the number of trail segments, stay as they are. A call with a
  direction perpendicular to \<open>c\<close> while the round is running applies the turn: the player
  gets the new direction and one more trail segment.
\<close>

theorem setPlayerDirection_same_or_opposite_noop:
  assumes "dir (player e) = DIRECTION_VECTORS c"
  shows "(d = c \<or> DIRECTION_VECTORS d = Vec (- vx (DIRECTION_VECTORS c)) (- vy (DIRECTION_VECTORS c))
            \<longrightarrow> setPlayerDirection d e = e \<and>
                dir (player (setPlayerDirection d e)) = dir (player e) \<and>
                length (segments (player (setPlayerDirection d e))) = length (segments (player e))) \<and>
         (running e \<and>
          vx (DIRECTION_VECTORS c) * vx (DIRECTION_VECTORS d)
            + vy (DIRECTION_VECTORS c) * vy (DIRECTION_VECTORS d) = 0
            \<longrightarrow> setPlayerDirection d e = applyDirection Player (DIRECTION_VECTORS d) e \<and>
                dir (player (setPlayerDirection d e)) = DIRECTION_VECTORS d \<and>
                length (segments (player (setPlayerDirection d e))) = length (segments (player e)) + 1)"
proof -
  have opp: "isOpposite (dir (player e)) (DIRECTION_VECTORS d) \<longleftrightarrow>
      DIRECTION_VECTORS d = Vec (- vx (DIRECTION_VECTORS c)) (- vy (DIRECTION_VECTORS c))"
    unfolding assms by (rule isOpposite_DIRECTION_VECTORS)
  have same: "isSameDirection (dir (player e)) (DIRECTION_VECTORS d) \<longleftrightarrow> d = c"
    unfolding assms by (rule isSameDirection_DIRECTION_VECTORS)
  have perp: "vx (DIRECTION_VECTORS c) * vx (DIRECTION_VECTORS d)
            + vy (DIRECTION_VECTORS c) * vy (DIRECTION_VECTORS d) = 0 \<longleftrightarrow>
       \<not> isOpposite (dir (player e)) (DIRECTION_VECTORS d) \<and>
       \<not> isSameDirection (dir (player e)) (DIRECTION_VECTORS d)"
    unfolding assms by (rule perpendicular_DIRECTION_VECTORS)
  have rej: "setPlayerDirection d e = e"
    if "d = c \<or> DIRECTION_VECTORS d = Vec (- vx (DIRECTION_VECTORS c)) (- vy (DIRECTION_VECTORS c))"
    using that opp same setPlayerDirection_reject [of e d] by blast
  have acc: "setPlayerDirection d e = applyDirection Player (DIRECTION_VECTORS d) e"
    if "running e"
       "vx (DIRECTION_VECTORS c) * vx (DIRECTION_VECTORS d)
            + vy (DIRECTION_VECTORS c) * vy (DIRECTION_VECTORS d) = 0"
    using that perp setPlayerDirection_turn [of e d] by blast
  have eff: "dir (player (applyDirection Player v e)) = v \<and>
     length (segments (player (applyDirection Player v e))) = length (segments (player e)) + 1" for v
    by (simp add: applyDirection_def Let_def)
  show ?thesis
  proof (intro conjI impI)
    assume a: "d = c \<or> DIRECTION_VECTORS d = Vec (- vx (DIRECTION_VECTORS c)) (- vy (DIRECTION_VECTORS c))"
    show "setPlayerDirection d e = e" by (rule rej [OF a])
    show "dir (player (setPlayerDirection d e)) = dir (player e)" by (simp add: rej [OF a])
    show "length (segments (player (setPlayerDirection d e))) = length (segments (player e))"
      by (simp add: rej [OF a])
  next
    assume b: "running e \<and>
          vx (DIRECTION_VECTORS c) * vx (DIRECTION_VECTORS d)
            + vy (DIRECTION_VECTORS c) * vy (DIRECTION_VECTORS d) = 0"
    then have r: "setPlayerDirection d e = applyDirection Player (DIRECTION_VECTORS d) e"
      using acc by blast
    show "setPlayerDirection d e = applyDirection Player (DIRECTION_VECTORS d) e" by (rule r)
    show "dir (player (setPlayerDirection d e)) = DIRECTION_VECTORS d" by (simp add: r eff)
    show "length (segments (player (setPlayerDirection d e))) = length (segments (player e)) + 1"
      by (simp add: r eff)
  qed
qed

theorem setPlayerDirection_same_or_opposite_noop_witness:
  "dir (player (startRound (newEngine 800 600))) = DIRECTION_VECTORS Right \<and>
   setPlayerDirection Right (startRound (newEngine 800 600)) = startRound (newEngine 800 600) \<and>
   setPlayerDirection Left (startRound (newEngine 800 600)) = startRound (newEngine 800 600) \<and>
   running (startRound (newEngine 800 600)) \<and>
   dir (player (setPlayerDirection Up (startRound (newEngine 800 600)))) = DIRECTION_VECTORS Up \<and>
   length (segments (player (setPlayerDirection Up (startRound (newEngine 800 600))))) =
     length (segments (player (startRound (newEngine 800 600)))) + 1"
proof -
  let ?e = "startRound (newEngine 800 600)"
  have h: "dir (player ?e) = DIRECTION_VECTORS Right" by (rule startRound_fields)
  have r: "running ?e" by (rule startRound_fields)
  have o: "DIRECTION_VECTORS Left = Vec (- vx (DIRECTION_VECTORS Right)) (- vy (DIRECTION_VECTORS Right))"
    by simp
  have p: "vx (DIRECTION_VECTORS Right) * vx (DIRECTION_VECTORS Up)
            + vy (DIRECTION_VECTORS Right) * vy (DIRECTION_VECTORS Up) = 0"
    by simp
  show ?thesis
    using h r o p
      setPlayerDirection_same_or_opposite_noop [OF h, of Right]
      setPlayerDirection_same_or_opposite_noop [OF h, of Left]
      setPlayerDirection_same_or_opposite_noop [OF h, of Up]
    by blast
qed

text \<open>
  C9. While a round is running but paused, \<open>setPlayerDirection\<close> with a direction
  perpendicular to the player's current one still takes effect: the player's direction is
  replaced, a zero-length segment at the player's position is appended to the trail, and
  the turn callback is called for the player. The guard reads only \<open>running\<close>: the result
  does not depend on the pause flag.
\<close>

theorem setPlayerDirection_while_paused:
  assumes "running e" and "paused e" and "ident (player e) = Player"
    and "dir (player e) = DIRECTION_VECTORS c"
    and "vx (DIRECTION_VECTORS c) * vx (DIRECTION_VECTORS d)
           + vy (DIRECTION_VECTORS c) * vy (DIRECTION_VECTORS d) = 0"
  shows "setPlayerDirection d e =
           e\<lparr> player := (player e)\<lparr> dir := DIRECTION_VECTORS d,
                                      segments := segments (player e)
                                                    @ [Segment (pos (player e)) (pos (player e))] \<rparr>,
              calls := calls e @ [OnTurn Player] \<rparr> \<and>
         setPlayerDirection d (e\<lparr> paused := False \<rparr>) = (setPlayerDirection d e)\<lparr> paused := False \<rparr>"
proof -
  have np: "\<not> isOpposite (dir (player e)) (DIRECTION_VECTORS d) \<and>
            \<not> isSameDirection (dir (player e)) (DIRECTION_VECTORS d)"
    using assms(5) unfolding assms(4) by (simp add: perpendicular_DIRECTION_VECTORS)
  have t: "setPlayerDirection d e = applyDirection Player (DIRECTION_VECTORS d) e"
    using assms(1) np by (simp add: setPlayerDirection_turn)
  have u: "setPlayerDirection d (e\<lparr> paused := False \<rparr>)
             = applyDirection Player (DIRECTION_VECTORS d) (e\<lparr> paused := False \<rparr>)"
    using assms(1) np by (simp add: setPlayerDirection_turn)
  show ?thesis
    using assms(3) by (simp add: t u applyDirection_Player)
qed

theorem setPlayerDirection_while_paused_witness:
  "running (pause (startRound (newEngine 800 600))) \<and>
   paused (pause (startRound (newEngine 800 600))) \<and>
   dir (player (setPlayerDirection Up (pause (startRound (newEngine 800 600))))) = DIRECTION_VECTORS Up \<and>
   length (segments (player (setPlayerDirection Up (pause (startRound (newEngine 800 600)))))) = 2 \<and>
   calls (setPlayerDirection Up (pause (startRound (newEngine 800 600)))) = [OnTurn Player]"
proof -
  let ?e = "pause (startRound (newEngine 800 600))"
  have r: "running ?e" by (simp add: pause_fields startRound_fields)
  have q: "paused ?e" by (simp add: pause_fields startRound_fields)
  have i: "ident (player ?e) = Player" by (simp add: pause_fields startRound_fields)
  have h: "dir (player ?e) = DIRECTION_VECTORS Right" by (simp add: pause_fields startRound_fields)
  have p: "vx (DIRECTION_VECTORS Right) * vx (DIRECTION_VECTORS Up)
            + vy (DIRECTION_VECTORS Right) * vy (DIRECTION_VECTORS Up) = 0"
    by simp
  have s: "length (segments (player ?e)) = 1" "calls ?e = []"
    by (simp_all add: pause_def startRound_def resetRoundState_def newEngine_def resize_def Let_def)
  note w = setPlayerDirection_while_paused [OF r q i h p]
  have "dir (player (setPlayerDirection Up ?e)) = DIRECTION_VECTORS Up"
    by (subst conjunct1 [OF w]) simp
  moreover have "length (segments (player (setPlayerDirection Up ?e))) = 2"
    by (subst conjunct1 [OF w]) (simp add: s)
  moreover have "calls (setPlayerDirection Up ?e) = [OnTurn Player]"
    by (subst conjunct1 [OF w]) (simp add: s)
  ultimately show ?thesis using r q by blast
qed

subsection \<open>The opponent's decision\<close>

lemma applyGridMove_dead:
  "\<not> dead a \<Longrightarrow>
   dead (fst (applyGridMove a m (Some occ) (Some W) (Some H))) \<longleftrightarrow>
     \<not> (inGrid W H (gx a + gvx m, gy a + gvy m) \<and> (gx a + gvx m, gy a + gvy m) \<notin> occ)"
  by (auto simp: applyGridMove_def Let_def inGrid_def)

lemma applyGridMove_state:
  "\<not> dead a \<Longrightarrow> \<not> dead (fst (applyGridMove a m (Some occ) (Some W) (Some H))) \<Longrightarrow>
   fst (applyGridMove a m (Some occ) (Some W) (Some H))
     = \<lparr> gx = gx a + gvx m, gy = gy a + gvy m, gdir = m, dead = False \<rparr>"
  by (auto simp: applyGridMove_def Let_def split: if_splits)

lemma scoreMoves_returns:
  "\<exists>r. scoreMoves a p occ W H minShort moves bd bs = Some r"
proof (induction moves arbitrary: bd bs)
  case Nil
  show ?case by simp
next
  case (Cons m moves)
  obtain vor where v: "gridVoronoiDiff (fst (applyGridMove a m (Some occ) (Some W) (Some H))) p occ W H = Some vor"
    using gridVoronoiDiff_returns by blast
  show ?case
    using Cons.IH by (simp add: Let_def v)
qed

lemma scoreMoves_bestDir:
  "scoreMoves a p occ W H minShort moves bd bs = Some (bd', bs') \<Longrightarrow>
   bd' = bd \<or> (\<exists>m \<in> set moves. bd' = Some m \<and> survives a occ W H minShort m)"
proof (induction moves arbitrary: bd bs)
  case Nil
  then show ?case by simp
next
  case (Cons m moves)
  show ?case
  proof (cases "survives a occ W H minShort m")
    case False
    then have "scoreMoves a p occ W H minShort (m # moves) bd bs
        = scoreMoves a p occ W H minShort moves bd bs"
      by (auto simp: survives_def Let_def)
    with Cons.prems Cons.IH [of bd bs] show ?thesis by auto
  next
    case True
    obtain vor where v: "gridVoronoiDiff (fst (applyGridMove a m (Some occ) (Some W) (Some H))) p occ W H = Some vor"
      using gridVoronoiDiff_returns by blast
    from True Cons.prems have
      "(\<exists>sc. scoreMoves a p occ W H minShort moves (Some m) (Some sc) = Some (bd', bs')) \<or>
       scoreMoves a p occ W H minShort moves bd bs = Some (bd', bs')"
      by (auto simp: survives_def Let_def v split: if_splits)
    then show ?thesis
      using Cons.IH True by fastforce
  qed
qed

lemma scoreMoves_keeps_Some:
  "scoreMoves a p occ W H minShort moves (Some b) bs = Some (bd', bs') \<Longrightarrow> bd' \<noteq> None"
  using scoreMoves_bestDir [of a p occ W H minShort moves "Some b" bs bd' bs'] by auto

lemma scoreMoves_finds:
  "scoreMoves a p occ W H minShort moves bd None = Some (bd', bs') \<Longrightarrow>
   \<exists>m \<in> set moves. survives a occ W H minShort m \<Longrightarrow> bd' \<noteq> None"
proof (induction moves arbitrary: bd)
  case Nil
  then show ?case by simp
next
  case (Cons m moves)
  show ?case
  proof (cases "survives a occ W H minShort m")
    case False
    then have "scoreMoves a p occ W H minShort (m # moves) bd None
        = scoreMoves a p occ W H minShort moves bd None"
      by (auto simp: survives_def Let_def)
    with Cons.prems False Cons.IH [of bd] show ?thesis by auto
  next
    case True
    obtain vor where v: "gridVoronoiDiff (fst (applyGridMove a m (Some occ) (Some W) (Some H))) p occ W H = Some vor"
      using gridVoronoiDiff_returns by blast
    from True Cons.prems(1) have
      "\<exists>sc. scoreMoves a p occ W H minShort moves (Some m) (Some sc) = Some (bd', bs')"
      by (auto simp: survives_def Let_def v)
    then show ?thesis using scoreMoves_keeps_Some by blast
  qed
qed


lemma getGridMoves_units:
  "m \<in> set (getGridMoves (vectorToGridDir d)) \<Longrightarrow>
   m = GVec 1 0 \<or> m = GVec (-1) 0 \<or> m = GVec 0 1 \<or> m = GVec 0 (-1)"
  by (auto simp: getGridMoves_def vectorToGridDir_def split: if_splits)

lemma vectorToGridDir_gridDirToVec:
  "m = GVec 1 0 \<or> m = GVec (-1) 0 \<or> m = GVec 0 1 \<or> m = GVec 0 (-1) \<Longrightarrow>
   vectorToGridDir (gridDirToVec m) = m"
  by (auto simp: vectorToGridDir_def gridDirToVec_def)

lemma getGridMoves_nth0: "getGridMoves d ! 0 \<in> set (getGridMoves d)"
  by (simp add: getGridMoves_def)

lemma decideAiDirection_cases:
  assumes occ: "buildOccupiedGrid e W H VORONOI_STEP = Some occ"
    and W: "W = max 4 \<lfloor>width e / VORONOI_STEP\<rfloor>" and H: "H = max 4 \<lfloor>height e / VORONOI_STEP\<rfloor>"
    and a: "a = gridOf VORONOI_STEP (ai e)"
    and sm: "scoreMoves a (gridOf VORONOI_STEP (player e)) occ W H (minShortClear config)
               (getGridMoves (gdir a)) None None = Some (bd, bs)"
  shows "decideAiDirection config e = Some (map_option gridDirToVec bd) \<or>
         (decideAiDirection config e = Some (Some (gridDirToVec (getGridMoves (gdir a) ! 0))) \<and>
          \<not> dead (fst (applyGridMove a (getGridMoves (gdir a) ! 0) (Some occ) (Some W) (Some H))))"
  using occ sm unfolding decideAiDirection_def Let_def W [symmetric] H [symmetric] a [symmetric]
  by (auto split: option.splits)



text \<open>
  C5. Every decision of the opponent returns. A direction it returns, the scored winner
  as well as the forward override, is one of the three candidate moves and leads to a cell
  that is inside the grid and not occupied. When at least one candidate move leads to a
  cell inside the grid, not occupied and with clearance at least 2, the decision returns a
  direction (not \<open>null\<close>), so the opponent does not pick an occupied or off-grid cell then.
\<close>

theorem decideAiDirection_avoids_blocked_cells:
  "let W = max 4 \<lfloor>width e / VORONOI_STEP\<rfloor>;
       H = max 4 \<lfloor>height e / VORONOI_STEP\<rfloor>;
       a = gridOf VORONOI_STEP (ai e);
       moves = getGridMoves (gdir a)
   in \<exists>occupied r.
        buildOccupiedGrid e W H VORONOI_STEP = Some occupied \<and>
        decideAiDirection config e = Some r \<and>
        (\<forall>v. r = Some v \<longrightarrow>
           vectorToGridDir v \<in> set moves \<and>
           inGrid W H (gx a + gvx (vectorToGridDir v), gy a + gvy (vectorToGridDir v)) \<and>
           (gx a + gvx (vectorToGridDir v), gy a + gvy (vectorToGridDir v)) \<notin> occupied) \<and>
        ((\<exists>m \<in> set moves.
            inGrid W H (gx a + gvx m, gy a + gvy m) \<and>
            (gx a + gvx m, gy a + gvy m) \<notin> occupied \<and>
            2 \<le> gridClearance \<lparr> gx = gx a + gvx m, gy = gy a + gvy m, gdir = m, dead = False \<rparr>
                   W H occupied (minShortClear config))
         \<longrightarrow> r \<noteq> None)"
proof -
  define W where "W = max 4 \<lfloor>width e / VORONOI_STEP\<rfloor>"
  define H where "H = max 4 \<lfloor>height e / VORONOI_STEP\<rfloor>"
  define a where "a = gridOf VORONOI_STEP (ai e)"
  define moves where "moves = getGridMoves (gdir a)"
  have nd: "\<not> dead a" by (simp add: a_def gridOf_def)
  have units: "m \<in> set moves \<Longrightarrow> vectorToGridDir (gridDirToVec m) = m" for m
    unfolding moves_def a_def gridOf_def
    using getGridMoves_units [of m "dir (ai e)"] vectorToGridDir_gridDirToVec [of m] by simp
  obtain occ where occ: "buildOccupiedGrid e W H VORONOI_STEP = Some occ"
    using buildOccupiedGrid_returns by blast
  obtain bd bs where sm:
    "scoreMoves a (gridOf VORONOI_STEP (player e)) occ W H (minShortClear config) moves None None
       = Some (bd, bs)"
    using scoreMoves_returns [of a "gridOf VORONOI_STEP (player e)" occ W H "minShortClear config"
        moves None None] by auto
  have free: "inGrid W H (gx a + gvx m, gy a + gvy m) \<and> (gx a + gvx m, gy a + gvy m) \<notin> occ"
    if "\<not> dead (fst (applyGridMove a m (Some occ) (Some W) (Some H)))" for m
    using that applyGridMove_dead [OF nd, of m occ W H] by blast
  have best: "bd = None \<or> (\<exists>m \<in> set moves. bd = Some m \<and> survives a occ W H (minShortClear config) m)"
    using scoreMoves_bestDir [OF sm] by auto
  have fwd: "moves ! 0 \<in> set moves" unfolding moves_def by (rule getGridMoves_nth0)
  from decideAiDirection_cases [OF occ W_def H_def a_def sm [unfolded moves_def]]
  have cases: "decideAiDirection config e = Some (map_option gridDirToVec bd) \<or>
         (decideAiDirection config e = Some (Some (gridDirToVec (moves ! 0))) \<and>
          \<not> dead (fst (applyGridMove a (moves ! 0) (Some occ) (Some W) (Some H))))"
    unfolding moves_def .
  then obtain r where r: "decideAiDirection config e = Some r" by blast
  have land: "vectorToGridDir v \<in> set moves \<and>
           inGrid W H (gx a + gvx (vectorToGridDir v), gy a + gvy (vectorToGridDir v)) \<and>
           (gx a + gvx (vectorToGridDir v), gy a + gvy (vectorToGridDir v)) \<notin> occ"
    if rv: "r = Some v" for v
  proof -
    from cases r rv consider
        (scored) m where "bd = Some m" "v = gridDirToVec m"
      | (forward) "v = gridDirToVec (moves ! 0)"
          "\<not> dead (fst (applyGridMove a (moves ! 0) (Some occ) (Some W) (Some H)))"
      by (cases bd) auto
    then show ?thesis
    proof cases
      case scored
      with best have m: "m \<in> set moves" "survives a occ W H (minShortClear config) m" by auto
      then have "\<not> dead (fst (applyGridMove a m (Some occ) (Some W) (Some H)))"
        by (simp add: survives_def)
      from free [OF this] show ?thesis using units [OF m(1)] m(1) scored(2) by simp
    next
      case forward
      from free [OF forward(2)] show ?thesis using units [OF fwd] fwd forward(1) by simp
    qed
  qed
  have found: "r \<noteq> None"
    if ex: "\<exists>m \<in> set moves.
            inGrid W H (gx a + gvx m, gy a + gvy m) \<and>
            (gx a + gvx m, gy a + gvy m) \<notin> occ \<and>
            2 \<le> gridClearance \<lparr> gx = gx a + gvx m, gy = gy a + gvy m, gdir = m, dead = False \<rparr>
                   W H occ (minShortClear config)"
  proof -
    from ex obtain m where m: "m \<in> set moves"
      "inGrid W H (gx a + gvx m, gy a + gvy m)" "(gx a + gvx m, gy a + gvy m) \<notin> occ"
      "2 \<le> gridClearance \<lparr> gx = gx a + gvx m, gy = gy a + gvy m, gdir = m, dead = False \<rparr>
                   W H occ (minShortClear config)" by blast
    have alive: "\<not> dead (fst (applyGridMove a m (Some occ) (Some W) (Some H)))"
      using applyGridMove_dead [OF nd, of m occ W H] m(2,3) by blast
    have "survives a occ W H (minShortClear config) m"
      unfolding survives_def using alive m(4) applyGridMove_state [OF nd alive] by simp
    with m(1) have "bd \<noteq> None" using scoreMoves_finds [OF sm] by blast
    with cases r show ?thesis by auto
  qed
  show ?thesis
    unfolding Let_def W_def [symmetric] H_def [symmetric] a_def [symmetric] moves_def [symmetric]
    using occ r land found by blast
qed

lemma startRound_800_600:
  "width (startRound (newEngine 800 600)) = 800"
  "height (startRound (newEngine 800 600)) = 600"
  "ai (startRound (newEngine 800 600)) =
     \<lparr> ident = Ai, pos = Vec 720 300, dir = Vec (-1) 0, color = COLOR_ai,
       segments = [Segment (Vec 720 300) (Vec 720 300)] \<rparr>"
  "player (startRound (newEngine 800 600)) =
     \<lparr> ident = Player, pos = Vec 80 300, dir = Vec 1 0, color = COLOR_player,
       segments = [Segment (Vec 80 300) (Vec 80 300)] \<rparr>"
  by (simp_all add: startRound_def resetRoundState_def newEngine_def resize_def Let_def
        SPAWN_PADDING_def)

lemma VORONOI_STEP_24: "VORONOI_STEP = 24"
  by (simp add: VORONOI_STEP_def TRAIL_WIDTH_def COLLISION_RADIUS_def COLLISION_TOLERANCE_def)

lemma buildOccupiedGrid_800_600:
  "buildOccupiedGrid (startRound (newEngine 800 600)) 33 25 24 = Some {(30, 12), (3, 12)}"
  by (simp add: buildOccupiedGrid_def startRound_800_600 markSegment_def markLoop.simps Let_def)

lemma gridClearance_800_600:
  "gridClearance \<lparr> gx = 29, gy = 12, gdir = GVec (-1) 0, dead = False \<rparr>
     33 25 {(30, 12), (3, 12)} 8 = 8"
  by (simp add: gridClearance_def)


theorem decideAiDirection_avoids_blocked_cells_witness:
  "\<exists>occupied v.
     buildOccupiedGrid (startRound (newEngine 800 600)) 33 25 VORONOI_STEP = Some occupied \<and>
     (29, 12) \<notin> occupied \<and>
     2 \<le> gridClearance \<lparr> gx = 29, gy = 12, gdir = GVec (-1) 0, dead = False \<rparr> 33 25 occupied 8 \<and>
     decideAiDirection (DIFFICULTY_CONFIG Normal) (startRound (newEngine 800 600)) = Some (Some v) \<and>
     inGrid 33 25 (30 + gvx (vectorToGridDir v), 12 + gvy (vectorToGridDir v)) \<and>
     (30 + gvx (vectorToGridDir v), 12 + gvy (vectorToGridDir v)) \<notin> occupied"
proof -
  let ?e = "startRound (newEngine 800 600)"
  have W: "max 4 \<lfloor>width ?e / VORONOI_STEP\<rfloor> = 33" by (simp add: startRound_800_600 VORONOI_STEP_24)
  have H: "max 4 \<lfloor>height ?e / VORONOI_STEP\<rfloor> = 25" by (simp add: startRound_800_600 VORONOI_STEP_24)
  have a: "gridOf VORONOI_STEP (ai ?e) = \<lparr> gx = 30, gy = 12, gdir = GVec (-1) 0, dead = False \<rparr>"
    by (simp add: gridOf_def startRound_800_600 VORONOI_STEP_24 vectorToGridDir_def)
  have mv: "getGridMoves (GVec (-1) 0) = [GVec (-1) 0, GVec 0 1, GVec 0 (-1)]"
    by (simp add: getGridMoves_def)
  from decideAiDirection_avoids_blocked_cells [of ?e "DIFFICULTY_CONFIG Normal"]
  obtain occupied r where
      o: "buildOccupiedGrid ?e 33 25 VORONOI_STEP = Some occupied"
    and r: "decideAiDirection (DIFFICULTY_CONFIG Normal) ?e = Some r"
    and l: "\<forall>v. r = Some v \<longrightarrow>
           vectorToGridDir v \<in> set [GVec (-1) 0, GVec 0 1, GVec 0 (-1)] \<and>
           inGrid 33 25 (30 + gvx (vectorToGridDir v), 12 + gvy (vectorToGridDir v)) \<and>
           (30 + gvx (vectorToGridDir v), 12 + gvy (vectorToGridDir v)) \<notin> occupied"
    and f: "(\<exists>m \<in> set [GVec (-1) 0, GVec 0 1, GVec 0 (-1)].
            inGrid 33 25 (30 + gvx m, 12 + gvy m) \<and>
            (30 + gvx m, 12 + gvy m) \<notin> occupied \<and>
            2 \<le> gridClearance \<lparr> gx = 30 + gvx m, gy = 12 + gvy m, gdir = m, dead = False \<rparr>
                   33 25 occupied (minShortClear (DIFFICULTY_CONFIG Normal)))
         \<longrightarrow> r \<noteq> None"
    unfolding Let_def W H a by (auto simp: mv)
  have oe: "occupied = {(30, 12), (3, 12)}" using o buildOccupiedGrid_800_600 by (simp add: VORONOI_STEP_24)
  have c: "gridClearance \<lparr> gx = 29, gy = 12, gdir = GVec (-1) 0, dead = False \<rparr> 33 25 occupied 8 = 8"
    unfolding oe by (rule gridClearance_800_600)
  have hyp: "\<exists>m \<in> set [GVec (-1) 0, GVec 0 1, GVec 0 (-1)].
            inGrid 33 25 (30 + gvx m, 12 + gvy m) \<and>
            (30 + gvx m, 12 + gvy m) \<notin> occupied \<and>
            2 \<le> gridClearance \<lparr> gx = 30 + gvx m, gy = 12 + gvy m, gdir = m, dead = False \<rparr>
                   33 25 occupied (minShortClear (DIFFICULTY_CONFIG Normal))"
    using c by (simp add: inGrid_def oe)
  with f have "r \<noteq> None" by blast
  then obtain v where v: "r = Some v" by blast
  have n: "(29, 12) \<notin> occupied" by (simp add: oe)
  show ?thesis using o n c r v l by (intro exI [of _ occupied] exI [of _ v]) simp
qed

subsection \<open>The tick\<close>

lemma decideAiDirection_returns: "\<exists>r. decideAiDirection config e = Some r"
proof -
  define W where "W = max 4 \<lfloor>width e / VORONOI_STEP\<rfloor>"
  define H where "H = max 4 \<lfloor>height e / VORONOI_STEP\<rfloor>"
  define a where "a = gridOf VORONOI_STEP (ai e)"
  obtain occ where occ: "buildOccupiedGrid e W H VORONOI_STEP = Some occ"
    using buildOccupiedGrid_returns by blast
  obtain bd bs where sm:
    "scoreMoves a (gridOf VORONOI_STEP (player e)) occ W H (minShortClear config)
       (getGridMoves (gdir a)) None None = Some (bd, bs)"
    using scoreMoves_returns [of a "gridOf VORONOI_STEP (player e)" occ W H "minShortClear config"
        "getGridMoves (gdir a)" None None] by auto
  from decideAiDirection_cases [OF occ W_def H_def a_def sm] show ?thesis by blast
qed

lemma updateAI_forms:
  "\<exists>t. updateAI delta e = Some (e\<lparr> aiDecisionTimer := t \<rparr>) \<or>
       (\<exists>c. updateAI delta e = Some (applyDirection Ai c (e\<lparr> aiDecisionTimer := t \<rparr>)))"
proof (cases "aiDecisionTimer e - delta > 0")
  case True
  then show ?thesis by (auto simp: updateAI_def Let_def)
next
  case False
  define e2 where "e2 = e\<lparr> aiDecisionTimer := decisionInterval (DIFFICULTY_CONFIG (difficulty e)) \<rparr>"
  obtain r where r: "decideAiDirection (DIFFICULTY_CONFIG (difficulty e)) e2 = Some r"
    using decideAiDirection_returns by blast
  have "updateAI delta e = Some e2 \<or> (\<exists>c. updateAI delta e = Some (applyDirection Ai c e2))"
    using False r by (cases r) (auto simp: updateAI_def Let_def e2_def)
  then show ?thesis unfolding e2_def by blast
qed

lemma applyDirection_Ai_fields:
  "running (applyDirection Ai c e) = running e"
  "paused (applyDirection Ai c e) = paused e"
  "player (applyDirection Ai c e) = player e"
  "speed (applyDirection Ai c e) = speed e"
  "width (applyDirection Ai c e) = width e"
  "height (applyDirection Ai c e) = height e"
  "segments (ai (applyDirection Ai c e)) \<noteq> []"
  "roundEnds (applyDirection Ai c e) = roundEnds e"
  by (simp_all add: applyDirection_def Let_def roundEnds_def)

lemma updateAI_fields:
  assumes "updateAI delta e = Some e'"
  shows "running e' = running e" "paused e' = paused e" "player e' = player e"
    "speed e' = speed e" "width e' = width e" "height e' = height e"
    "segments (ai e) \<noteq> [] \<Longrightarrow> segments (ai e') \<noteq> []"
    "roundEnds e' = roundEnds e"
  using updateAI_forms [of delta e] assms
  by (auto simp: applyDirection_Ai_fields) (simp_all add: roundEnds_def)

lemma updateTimers_fields:
  "running (updateTimers delta e) = running e" "paused (updateTimers delta e) = paused e"
  "player (updateTimers delta e) = player e" "ai (updateTimers delta e) = ai e"
  "calls (updateTimers delta e) = calls e" "speed (updateTimers delta e) = speed e"
  "speedTimer (updateTimers delta e) = speedTimer e"
  "aiDecisionTimer (updateTimers delta e) = aiDecisionTimer e"
  "aiDistanceSinceTurn (updateTimers delta e) = aiDistanceSinceTurn e"
  "width (updateTimers delta e) = width e" "height (updateTimers delta e) = height e"
  "difficulty (updateTimers delta e) = difficulty e"
  by (simp_all add: updateTimers_def updateWallShrink_def)

lemma updateSpeed_fields:
  "running (updateSpeed delta e) = running e" "paused (updateSpeed delta e) = paused e"
  "player (updateSpeed delta e) = player e" "ai (updateSpeed delta e) = ai e"
  "calls (updateSpeed delta e) = calls e"
  "width (updateSpeed delta e) = width e" "height (updateSpeed delta e) = height e"
  by (simp_all add: updateSpeed_def Let_def)

lemma commitMoves_Inr:
  assumes "segments (player e) \<noteq> []" "segments (ai e) \<noteq> []"
  shows "commitMoves delta e =
     Inr (e\<lparr> aiDistanceSinceTurn := aiDistanceSinceTurn e + moveDistance delta e,
             player := (player e)\<lparr> segments := butlast (segments (player e))
                            @ [Segment (seg_a (last (segments (player e)))) (nextPos delta e (player e))],
                          pos := nextPos delta e (player e) \<rparr>,
             ai := (ai e)\<lparr> segments := butlast (segments (ai e))
                            @ [Segment (seg_a (last (segments (ai e)))) (nextPos delta e (ai e))],
                          pos := nextPos delta e (ai e) \<rparr> \<rparr>)"
  using assms by (simp add: commitMoves_def extendSegment_def Let_def)

lemma update_idle:
  "\<not> running e \<or> paused e \<Longrightarrow> update delta e = Some (Inr (updateTimers delta e))"
  by (auto simp: update_def Let_def updateTimers_fields)

lemma update_running:
  assumes "running e" "\<not> paused e" "segments (player e) \<noteq> []" "segments (ai e) \<noteq> []"
  shows "\<exists>e2 e4. updateAI delta (updateSpeed delta (updateTimers delta e)) = Some e2 \<and>
           commitMoves delta e2 = Inr e4 \<and>
           update delta e =
             Some (Inr (resolveCollisions (nextPos delta e2 (player e2)) (nextPos delta e2 (ai e2)) e4)) \<and>
           running e4 \<and> calls e4 = calls e2 \<and> roundEnds e2 = roundEnds e \<and>
           segments (player e4) \<noteq> [] \<and> segments (ai e4) \<noteq> []"
proof -
  let ?e1 = "updateSpeed delta (updateTimers delta e)"
  obtain e2 where e2: "updateAI delta ?e1 = Some e2"
    using updateAI_forms [of delta ?e1] by blast
  note f = updateAI_fields [OF e2]
  have p: "segments (player e2) \<noteq> []" using assms(3) by (simp add: f updateSpeed_fields updateTimers_fields)
  have a: "segments (ai e2) \<noteq> []" using assms(4) f(7) by (simp add: updateSpeed_fields updateTimers_fields)
  have r: "running e2" using assms(1) by (simp add: f updateSpeed_fields updateTimers_fields)
  have re: "roundEnds e2 = roundEnds e" by (simp add: f(8)) (simp add: roundEnds_def updateSpeed_fields updateTimers_fields)
  note c = commitMoves_Inr [OF p a, of delta]
  obtain e4 where e4: "commitMoves delta e2 = Inr e4" using c by blast
  have "running e4 \<and> calls e4 = calls e2 \<and> segments (player e4) \<noteq> [] \<and> segments (ai e4) \<noteq> []"
    using e4 r unfolding c by auto
  moreover have "update delta e =
             Some (Inr (resolveCollisions (nextPos delta e2 (player e2)) (nextPos delta e2 (ai e2)) e4))"
    using assms(1,2) e2 e4 by (simp add: update_def Let_def updateTimers_fields)
  ultimately show ?thesis using e2 e4 re by blast
qed

lemma resolveCollisions_calls:
  "running e \<Longrightarrow>
   calls (resolveCollisions p q e) = calls e @
     (if headHit p q \<or> (playerHit p e \<and> aiHit q e) then [OnRoundEnd ResTie]
      else if playerHit p e then [OnRoundEnd ResAi]
      else if aiHit q e then [OnRoundEnd ResPlayer]
      else []) \<and>
   running (resolveCollisions p q e) = (\<not> (headHit p q \<or> playerHit p e \<or> aiHit q e)) \<and>
   player (resolveCollisions p q e) = player e \<and> ai (resolveCollisions p q e) = ai e \<and>
   paused (resolveCollisions p q e) = paused e"
  by (cases "playerHit p e"; cases "aiHit q e"; cases "headHit p q";
      simp add: resolveCollisions_def endRound_def checkCollision_def playerHit_def aiHit_def)


lemma hypot_le_iff: "0 \<le> r \<Longrightarrow> hypot p q \<le> r \<longleftrightarrow> p * p + q * q \<le> r * r"
proof -
  assume r: "0 \<le> r"
  have "sqrt (p * p + q * q) \<le> sqrt (r * r) \<longleftrightarrow> p * p + q * q \<le> r * r"
    by (rule real_sqrt_le_iff)
  moreover have "sqrt (r * r) = r" using r by simp
  ultimately show ?thesis by (simp add: hypot_def)
qed

lemmas const_defs =
  BASE_SPEED_def SPEED_STEP_def SPEED_INTERVAL_def MAX_SPEED_def COLLISION_RADIUS_def
  COLLISION_TOLERANCE_def SPAWN_PADDING_def CRASH_FLASH_DURATION_def WALL_SHRINK_DURATION_def

lemmas tick_defs =
  update_def updateTimers_def updateWallShrink_def shrinkStep_def updateSpeed_def updateAI_def
  commitMoves_def extendSegment_def resolveCollisions_def playerHit_def aiHit_def headHit_def
  checkCollision_def selfSegments_def distancePointToSegment_def distance_def nextPos_def
  moveDistance_def endRound_def

lemmas start_defs = startRound_def resetRoundState_def newEngine_def resize_def createPlayer_def


lemma running_tick_hyps:
  "running (startRound e) \<and> \<not> paused (startRound e) \<and>
   segments (player (startRound e)) \<noteq> [] \<and> segments (ai (startRound e)) \<noteq> []"
  by (simp add: startRound_fields)

text \<open>
  C1. A tick on a running, unpaused round returns, and after both next positions are
  computed (and both moves written to the trails) it resolves the round so: if the
  head-to-head test holds or both collision tests are true, the round-end callback is
  called with \<open>tie\<close>; otherwise, if the player's collision test is true, with \<open>ai\<close>;
  otherwise, if the opponent's is true, with \<open>player\<close>; otherwise no callback is made and
  the round keeps running.
\<close>

theorem tick_resolution:
  assumes "running e" and "\<not> paused e"
    and "segments (player e) \<noteq> []" and "segments (ai e) \<noteq> []"
  shows "\<exists>e2 e4 e'.
           updateAI delta (updateSpeed delta (updateTimers delta e)) = Some e2 \<and>
           commitMoves delta e2 = Inr e4 \<and>
           update delta e = Some (Inr e') \<and>
           calls e' = calls e2 @
             (if headHit (nextPos delta e2 (player e2)) (nextPos delta e2 (ai e2)) \<or>
                 (playerHit (nextPos delta e2 (player e2)) e4 \<and> aiHit (nextPos delta e2 (ai e2)) e4)
              then [OnRoundEnd ResTie]
              else if playerHit (nextPos delta e2 (player e2)) e4 then [OnRoundEnd ResAi]
              else if aiHit (nextPos delta e2 (ai e2)) e4 then [OnRoundEnd ResPlayer]
              else []) \<and>
           running e' = (\<not> (headHit (nextPos delta e2 (player e2)) (nextPos delta e2 (ai e2)) \<or>
                             playerHit (nextPos delta e2 (player e2)) e4 \<or>
                             aiHit (nextPos delta e2 (ai e2)) e4))"
proof -
  from update_running [OF assms, of delta] obtain e2 e4 where
    a: "updateAI delta (updateSpeed delta (updateTimers delta e)) = Some e2"
    and c: "commitMoves delta e2 = Inr e4"
    and u: "update delta e =
             Some (Inr (resolveCollisions (nextPos delta e2 (player e2)) (nextPos delta e2 (ai e2)) e4))"
    and r: "running e4" and k: "calls e4 = calls e2"
    by blast
  note res = resolveCollisions_calls [OF r, of "nextPos delta e2 (player e2)" "nextPos delta e2 (ai e2)"]
  show ?thesis
    using a c u res unfolding k by blast
qed

theorem tick_resolution_witness:
  "running (startRound (newEngine 800 600)) \<and> \<not> paused (startRound (newEngine 800 600)) \<and>
   segments (player (startRound (newEngine 800 600))) \<noteq> [] \<and>
   segments (ai (startRound (newEngine 800 600))) \<noteq> [] \<and>
   (\<exists>e2 e4 e'.
      updateAI 0.05 (updateSpeed 0.05 (updateTimers 0.05 (startRound (newEngine 800 600)))) = Some e2 \<and>
      commitMoves 0.05 e2 = Inr e4 \<and>
      update 0.05 (startRound (newEngine 800 600)) = Some (Inr e') \<and>
      running e' = (\<not> (headHit (nextPos 0.05 e2 (player e2)) (nextPos 0.05 e2 (ai e2)) \<or>
                        playerHit (nextPos 0.05 e2 (player e2)) e4 \<or>
                        aiHit (nextPos 0.05 e2 (ai e2)) e4)))"
proof -
  let ?e = "startRound (newEngine 800 600)"
  note h = running_tick_hyps [of "newEngine 800 600"]
  have r: "running ?e" and p: "\<not> paused ?e"
    and s: "segments (player ?e) \<noteq> []" and t: "segments (ai ?e) \<noteq> []"
    using h by blast+
  show ?thesis
    using h tick_resolution [OF r p s t, of "0.05"] by blast
qed

text \<open>
  C2 (amended). In every tick both next positions are computed from the state before
  either move is written; then both moves are written (each agent's position becomes its
  next position and the last segment of each trail ends there), and only then are the two
  collision tests made, both on that same engine state.
\<close>

theorem collision_tests_after_commit:
  assumes "running e" and "\<not> paused e"
    and "segments (player e) \<noteq> []" and "segments (ai e) \<noteq> []"
  shows "\<exists>e2 e4.
           updateAI delta (updateSpeed delta (updateTimers delta e)) = Some e2 \<and>
           commitMoves delta e2 = Inr e4 \<and>
           update delta e =
             Some (Inr (resolveCollisions (nextPos delta e2 (player e2)) (nextPos delta e2 (ai e2)) e4)) \<and>
           pos (player e4) = nextPos delta e2 (player e2) \<and>
           pos (ai e4) = nextPos delta e2 (ai e2) \<and>
           segments (player e4) =
             butlast (segments (player e2))
               @ [Segment (seg_a (last (segments (player e2)))) (nextPos delta e2 (player e2))] \<and>
           segments (ai e4) =
             butlast (segments (ai e2))
               @ [Segment (seg_a (last (segments (ai e2)))) (nextPos delta e2 (ai e2))] \<and>
           playerHit (nextPos delta e2 (player e2)) e4 =
             checkCollision e4 (nextPos delta e2 (player e2)) (player e4) (ai e4) 0 \<and>
           aiHit (nextPos delta e2 (ai e2)) e4 =
             checkCollision e4 (nextPos delta e2 (ai e2)) (ai e4) (player e4) 0"
proof -
  let ?e1 = "updateSpeed delta (updateTimers delta e)"
  from update_running [OF assms, of delta] obtain e2 e4 where
    a: "updateAI delta ?e1 = Some e2"
    and c: "commitMoves delta e2 = Inr e4"
    and u: "update delta e =
             Some (Inr (resolveCollisions (nextPos delta e2 (player e2)) (nextPos delta e2 (ai e2)) e4))"
    by blast
  note f = updateAI_fields [OF a]
  have p: "segments (player e2) \<noteq> []"
    using assms(3) by (simp add: f updateSpeed_fields updateTimers_fields)
  have q: "segments (ai e2) \<noteq> []"
    using assms(4) f(7) by (simp add: updateSpeed_fields updateTimers_fields)
  have e4: "e4 = e2\<lparr> aiDistanceSinceTurn := aiDistanceSinceTurn e2 + moveDistance delta e2,
             player := (player e2)\<lparr> segments := butlast (segments (player e2))
                            @ [Segment (seg_a (last (segments (player e2)))) (nextPos delta e2 (player e2))],
                          pos := nextPos delta e2 (player e2) \<rparr>,
             ai := (ai e2)\<lparr> segments := butlast (segments (ai e2))
                            @ [Segment (seg_a (last (segments (ai e2)))) (nextPos delta e2 (ai e2))],
                          pos := nextPos delta e2 (ai e2) \<rparr> \<rparr>"
    using c unfolding commitMoves_Inr [OF p q] by simp
  have "pos (player e4) = nextPos delta e2 (player e2)" "pos (ai e4) = nextPos delta e2 (ai e2)"
    "segments (player e4) =
             butlast (segments (player e2))
               @ [Segment (seg_a (last (segments (player e2)))) (nextPos delta e2 (player e2))]"
    "segments (ai e4) =
             butlast (segments (ai e2))
               @ [Segment (seg_a (last (segments (ai e2)))) (nextPos delta e2 (ai e2))]"
    by (simp_all add: e4)
  then show ?thesis
    using a c u by (auto simp: playerHit_def aiHit_def)
qed

theorem collision_tests_after_commit_witness:
  "running (startRound (newEngine 640 480)) \<and> \<not> paused (startRound (newEngine 640 480)) \<and>
   segments (player (startRound (newEngine 640 480))) \<noteq> [] \<and>
   segments (ai (startRound (newEngine 640 480))) \<noteq> [] \<and>
   (\<exists>e2 e4.
      updateAI 0.05 (updateSpeed 0.05 (updateTimers 0.05 (startRound (newEngine 640 480)))) = Some e2 \<and>
      commitMoves 0.05 e2 = Inr e4 \<and>
      pos (player e4) = nextPos 0.05 e2 (player e2) \<and>
      pos (ai e4) = nextPos 0.05 e2 (ai e2) \<and>
      update 0.05 (startRound (newEngine 640 480)) =
        Some (Inr (resolveCollisions (nextPos 0.05 e2 (player e2)) (nextPos 0.05 e2 (ai e2)) e4)))"
proof -
  let ?e = "startRound (newEngine 640 480)"
  note h = running_tick_hyps [of "newEngine 640 480"]
  have r: "running ?e" and p: "\<not> paused ?e"
    and s: "segments (player ?e) \<noteq> []" and t: "segments (ai ?e) \<noteq> []"
    using h by blast+
  show ?thesis
    using h collision_tests_after_commit [OF r p s t, of "0.05"] by blast
qed

lemma crossingState_tick:
  "update 0.05 crossingState =
     Some (Inr (crossingState
       \<lparr> player := (player crossingState)
            \<lparr> pos := Vec 394 207,
              segments := [Segment (Vec 80 300) (Vec 80 300), Segment (Vec 80 300) (Vec 80 207),
                           Segment (Vec 80 207) (Vec 394 207)] \<rparr>,
         ai := (ai crossingState)
            \<lparr> pos := Vec 400 198,
              segments := [Segment (Vec 720 300) (Vec 400 300), Segment (Vec 400 300) (Vec 400 198)] \<rparr>,
         running := False, speedTimer := 0.05, aiDecisionTimer := 0.05, aiDistanceSinceTurn := 12,
         crashTimerPlayer := 0.6, crashedPlayer := True,
         wallShrinkPlayer := \<lparr> delay = 0.6, progress = 0, active = True \<rparr>,
         calls := [OnRoundEnd ResAi] \<rparr>))"
  by (simp add: crossingState_def start_defs tick_defs const_defs hypot_le_iff Let_def)

text \<open>
  C2 as stated fails. In \<open>crossingState\<close> neither next position collides with anything in
  the state before the moves are written and the heads are more than 10 apart, yet the
  tick ends the round for the opponent: the player's next position is within the radius of
  the part of the opponent's trail that this very tick adds.
\<close>

theorem collision_before_commit_counterexample:
  "running crossingState \<and> \<not> paused crossingState \<and>
   nextPos 0.05 crossingState (player crossingState) = Vec 394 207 \<and>
   nextPos 0.05 crossingState (ai crossingState) = Vec 400 198 \<and>
   \<not> checkCollision crossingState (Vec 394 207) (player crossingState) (ai crossingState) 0 \<and>
   \<not> checkCollision crossingState (Vec 400 198) (ai crossingState) (player crossingState) 0 \<and>
   \<not> headHit (Vec 394 207) (Vec 400 198) \<and>
   update 0.05 crossingState =
     Some (Inr (crossingState
       \<lparr> player := (player crossingState)
            \<lparr> pos := Vec 394 207,
              segments := [Segment (Vec 80 300) (Vec 80 300), Segment (Vec 80 300) (Vec 80 207),
                           Segment (Vec 80 207) (Vec 394 207)] \<rparr>,
         ai := (ai crossingState)
            \<lparr> pos := Vec 400 198,
              segments := [Segment (Vec 720 300) (Vec 400 300), Segment (Vec 400 300) (Vec 400 198)] \<rparr>,
         running := False, speedTimer := 0.05, aiDecisionTimer := 0.05, aiDistanceSinceTurn := 12,
         crashTimerPlayer := 0.6, crashedPlayer := True,
         wallShrinkPlayer := \<lparr> delay = 0.6, progress = 0, active = True \<rparr>,
         calls := [OnRoundEnd ResAi] \<rparr>))"
proof -
  have "running crossingState" "\<not> paused crossingState"
    "nextPos 0.05 crossingState (player crossingState) = Vec 394 207"
    "nextPos 0.05 crossingState (ai crossingState) = Vec 400 198"
    by (simp_all add: crossingState_def start_defs nextPos_def moveDistance_def const_defs)
  moreover have
    "\<not> checkCollision crossingState (Vec 394 207) (player crossingState) (ai crossingState) 0"
    "\<not> checkCollision crossingState (Vec 400 198) (ai crossingState) (player crossingState) 0"
    "\<not> headHit (Vec 394 207) (Vec 400 198)"
    by (simp_all add: crossingState_def start_defs tick_defs const_defs hypot_le_iff Let_def)
  ultimately show ?thesis using crossingState_tick by blast
qed


text \<open>
  C3 (amended). In every tick the head-to-head test holds exactly when the distance between
  the two next positions is at most twice the collision radius, \<open>2 \<times> 5 = 10\<close> (the
  collision tolerance is not added), and when it holds the round ends in a tie whatever
  the two collision tests say.
\<close>

theorem head_to_head_within_twice_radius:
  assumes "running e" and "\<not> paused e"
    and "segments (player e) \<noteq> []" and "segments (ai e) \<noteq> []"
  shows "\<exists>e2 e'.
           updateAI delta (updateSpeed delta (updateTimers delta e)) = Some e2 \<and>
           update delta e = Some (Inr e') \<and>
           (headHit (nextPos delta e2 (player e2)) (nextPos delta e2 (ai e2)) \<longleftrightarrow>
              distance (nextPos delta e2 (player e2)) (nextPos delta e2 (ai e2))
                \<le> 2 * COLLISION_RADIUS) \<and>
           2 * COLLISION_RADIUS = 10 \<and>
           (headHit (nextPos delta e2 (player e2)) (nextPos delta e2 (ai e2)) \<longrightarrow>
              calls e' = calls e2 @ [OnRoundEnd ResTie] \<and> \<not> running e')"
proof -
  from update_running [OF assms, of delta] obtain e2 e4 where
    a: "updateAI delta (updateSpeed delta (updateTimers delta e)) = Some e2"
    and u: "update delta e =
             Some (Inr (resolveCollisions (nextPos delta e2 (player e2)) (nextPos delta e2 (ai e2)) e4))"
    and r: "running e4" and k: "calls e4 = calls e2"
    by blast
  note res = resolveCollisions_calls [OF r, of "nextPos delta e2 (player e2)" "nextPos delta e2 (ai e2)"]
  have t: "headHit p q \<longleftrightarrow> distance p q \<le> 2 * COLLISION_RADIUS" for p q
    by (simp add: headHit_def mult.commute)
  have c: "2 * COLLISION_RADIUS = 10" by (simp add: COLLISION_RADIUS_def)
  show ?thesis
    using a u res t c unfolding k by (intro exI conjI) auto
qed

lemma duelState_fields:
  "running (duelState px ax)" "\<not> paused (duelState px ax)"
  "segments (player (duelState px ax)) \<noteq> []" "segments (ai (duelState px ax)) \<noteq> []"
  "calls (duelState px ax) = []"
  by (simp_all add: duelState_def start_defs)

lemma duelState_no_decision:
  "updateAI 0.05 (updateSpeed 0.05 (updateTimers 0.05 (duelState px ax)))
     = Some ((duelState px ax)\<lparr> speedTimer := 0.05, aiDecisionTimer := 0.05 \<rparr>)"
  by (simp add: duelState_def start_defs tick_defs const_defs Let_def)

theorem head_to_head_within_twice_radius_witness:
  "running (duelState 390 410) \<and> \<not> paused (duelState 390 410) \<and>
   segments (player (duelState 390 410)) \<noteq> [] \<and> segments (ai (duelState 390 410)) \<noteq> [] \<and>
   headHit (Vec 402 300) (Vec 398 300) \<and>
   (\<exists>e'. update 0.05 (duelState 390 410) = Some (Inr e') \<and>
         calls e' = [OnRoundEnd ResTie] \<and> \<not> running e')"
proof -
  let ?e = "duelState 390 410"
  let ?e2 = "?e\<lparr> speedTimer := 0.05, aiDecisionTimer := 0.05 \<rparr>"
  have r: "running ?e" and p: "\<not> paused ?e"
    and s: "segments (player ?e) \<noteq> []" and t: "segments (ai ?e) \<noteq> []"
    by (rule duelState_fields)+
  from head_to_head_within_twice_radius [OF r p s t, of "0.05"] obtain e2 e' where
    a: "updateAI 0.05 (updateSpeed 0.05 (updateTimers 0.05 ?e)) = Some e2"
    and u: "update 0.05 ?e = Some (Inr e')"
    and i: "headHit (nextPos 0.05 e2 (player e2)) (nextPos 0.05 e2 (ai e2)) \<longrightarrow>
              calls e' = calls e2 @ [OnRoundEnd ResTie] \<and> \<not> running e'"
    by blast
  have e2: "e2 = ?e2" using a unfolding duelState_no_decision by simp
  have np: "nextPos 0.05 ?e2 (player ?e2) = Vec 402 300"
    and na: "nextPos 0.05 ?e2 (ai ?e2) = Vec 398 300"
    by (simp_all add: duelState_def start_defs nextPos_def moveDistance_def const_defs)
  have hh: "headHit (Vec 402 300) (Vec 398 300)"
    by (simp add: headHit_def distance_def hypot_le_iff COLLISION_RADIUS_def)
  have c: "calls ?e2 = []" by (simp add: duelState_fields)
  from i hh have "calls e' = [OnRoundEnd ResTie] \<and> \<not> running e'"
    unfolding e2 np na c by simp
  then show ?thesis using r p s t hh u by blast
qed

text \<open>
  C3 as stated fails: next positions 11 apart are within \<open>2 \<times> (5 + 1) = 12\<close>, but the
  head-to-head test is false and the tick ends nothing.
\<close>

theorem head_to_head_counterexample:
  "running (duelState 382 417) \<and> \<not> paused (duelState 382 417) \<and>
   nextPos 0.05 (duelState 382 417) (player (duelState 382 417)) = Vec 394 300 \<and>
   nextPos 0.05 (duelState 382 417) (ai (duelState 382 417)) = Vec 405 300 \<and>
   distance (Vec 394 300) (Vec 405 300) \<le> 2 * (COLLISION_RADIUS + COLLISION_TOLERANCE) \<and>
   \<not> headHit (Vec 394 300) (Vec 405 300) \<and>
   update 0.05 (duelState 382 417) =
     Some (Inr ((duelState 382 417)
       \<lparr> player := (player (duelState 382 417))
            \<lparr> pos := Vec 394 300, segments := [Segment (Vec 80 300) (Vec 394 300)] \<rparr>,
         ai := (ai (duelState 382 417))
            \<lparr> pos := Vec 405 300, segments := [Segment (Vec 720 300) (Vec 405 300)] \<rparr>,
         speedTimer := 0.05, aiDecisionTimer := 0.05, aiDistanceSinceTurn := 12 \<rparr>))"
proof -
  have "running (duelState 382 417)" "\<not> paused (duelState 382 417)"
    by (rule duelState_fields)+
  moreover have
    "nextPos 0.05 (duelState 382 417) (player (duelState 382 417)) = Vec 394 300"
    "nextPos 0.05 (duelState 382 417) (ai (duelState 382 417)) = Vec 405 300"
    by (simp_all add: duelState_def start_defs nextPos_def moveDistance_def const_defs)
  moreover have
    "distance (Vec 394 300) (Vec 405 300) \<le> 2 * (COLLISION_RADIUS + COLLISION_TOLERANCE)"
    "\<not> headHit (Vec 394 300) (Vec 405 300)"
    by (simp_all add: headHit_def distance_def hypot_le_iff const_defs)
  moreover have "update 0.05 (duelState 382 417) =
     Some (Inr ((duelState 382 417)
       \<lparr> player := (player (duelState 382 417))
            \<lparr> pos := Vec 394 300, segments := [Segment (Vec 80 300) (Vec 394 300)] \<rparr>,
         ai := (ai (duelState 382 417))
            \<lparr> pos := Vec 405 300, segments := [Segment (Vec 720 300) (Vec 405 300)] \<rparr>,
         speedTimer := 0.05, aiDecisionTimer := 0.05, aiDistanceSinceTurn := 12 \<rparr>))"
    by (simp add: duelState_def start_defs tick_defs const_defs hypot_le_iff Let_def)
  ultimately show ?thesis by blast
qed

subsection \<open>Starting a round\<close>

lemma decide_cooldown_172:
  "decideAiDirection (DIFFICULTY_CONFIG Normal) (startRound (newEngine 172 144))
     = Some (Some (Vec (-1) 0))"
  by code_simp

lemma decide_no_cooldown_172:
  "decideAiDirection (DIFFICULTY_CONFIG Normal)
     (startRound ((newEngine 172 144)\<lparr> aiDistanceSinceTurn := 1000 \<rparr>))
     = Some (Some (Vec 0 (-1)))"
  by code_simp

text \<open>
  C10. \<open>resetRoundState\<close>, which \<open>startRound\<close> and \<open>reset\<close> both call, sets the speed,
  the speed timer and the decision timer, the running and pause flags and both agents
  (position, direction, trail) to their initial values, and leaves \<open>aiDistanceSinceTurn\<close>
  as it was. The distance carried over decides the turn cooldown of the next round: right
  after \<open>startRound\<close> the cooldown flag is the comparison of the carried distance with the
  minimal turn distance at base speed, and on a 172 by 144 arena the first decision of the
  round is to go on forward with a carried distance of 0 and to turn up with a carried
  distance of 1000.
\<close>

theorem resetRoundState_keeps_aiDistanceSinceTurn:
  "aiDistanceSinceTurn (resetRoundState e) = aiDistanceSinceTurn e \<and>
   aiDistanceSinceTurn (startRound e) = aiDistanceSinceTurn e \<and>
   aiDistanceSinceTurn (reset e) = aiDistanceSinceTurn e \<and>
   speed (resetRoundState e) = BASE_SPEED \<and>
   speedTimer (resetRoundState e) = 0 \<and>
   aiDecisionTimer (resetRoundState e) = 0 \<and>
   \<not> running (resetRoundState e) \<and>
   \<not> paused (resetRoundState e) \<and>
   player (resetRoundState e) =
     \<lparr> ident = Player, pos = Vec SPAWN_PADDING (height e * 0.5), dir = DIRECTION_VECTORS Right,
       color = COLOR_player,
       segments = [Segment (Vec SPAWN_PADDING (height e * 0.5)) (Vec SPAWN_PADDING (height e * 0.5))] \<rparr> \<and>
   ai (resetRoundState e) =
     \<lparr> ident = Ai, pos = Vec (width e - SPAWN_PADDING) (height e * 0.5), dir = DIRECTION_VECTORS Left,
       color = COLOR_ai,
       segments = [Segment (Vec (width e - SPAWN_PADDING) (height e * 0.5))
                           (Vec (width e - SPAWN_PADDING) (height e * 0.5))] \<rparr> \<and>
   turnCooldown (startRound e) = (aiDistanceSinceTurn e < minTurnDistance (startRound e)) \<and>
   minTurnDistance (startRound e) =
     120 + 240 * 0.25 * (if difficulty e = Hard then 1.0 else if difficulty e = Normal then 0.9 else 0.8) \<and>
   decideAiDirection (DIFFICULTY_CONFIG Normal) (startRound (newEngine 172 144))
     \<noteq> decideAiDirection (DIFFICULTY_CONFIG Normal)
         (startRound ((newEngine 172 144)\<lparr> aiDistanceSinceTurn := 1000 \<rparr>))"
proof -
  have a: "decideAiDirection (DIFFICULTY_CONFIG Normal) (startRound (newEngine 172 144))
     \<noteq> decideAiDirection (DIFFICULTY_CONFIG Normal)
         (startRound ((newEngine 172 144)\<lparr> aiDistanceSinceTurn := 1000 \<rparr>))"
    unfolding decide_cooldown_172 decide_no_cooldown_172 by simp
  show ?thesis
    by (intro conjI a)
       (simp_all add: resetRoundState_def startRound_def reset_def Let_def turnCooldown_def
          minTurnDistance_def BASE_SPEED_def)
qed

subsection \<open>The agent's own trail\<close>

lemma pointHitsSegments_iff:
  "pointHitsSegments point segs radius \<longleftrightarrow>
     (\<exists>s \<in> set segs. distancePointToSegment point (seg_a s) (seg_b s) \<le> radius)"
  by (induction segs) auto

lemma checkCollision_iff:
  "checkCollision e point self other 0 \<longleftrightarrow>
     (vx point \<le> 6 \<or> vx point \<ge> width e - 6 \<or> vy point \<le> 6 \<or> vy point \<ge> height e - 6) \<or>
     (\<exists>s \<in> set (segments other). distancePointToSegment point (seg_a s) (seg_b s) \<le> 6) \<or>
     (\<exists>s \<in> set (take (length (segments self) - 2) (segments self)).
         distancePointToSegment point (seg_a s) (seg_b s) \<le> 6)"
proof (cases "length (segments self) > 2")
  case True
  then show ?thesis
    by (simp add: checkCollision_def Let_def selfSegments_def pointHitsSegments_iff
          COLLISION_RADIUS_def COLLISION_TOLERANCE_def)
next
  case False
  then have "take (length (segments self) - 2) (segments self) = []" by simp
  with False show ?thesis
    by (simp add: checkCollision_def Let_def pointHitsSegments_iff
          COLLISION_RADIUS_def COLLISION_TOLERANCE_def)
qed

lemma update_player_trail:
  assumes "segments (player e) \<noteq> []" "segments (ai e) \<noteq> []"
  shows "\<exists>e' x. update delta e = Some (Inr e') \<and>
           segments (player e') =
             butlast (segments (player e)) @ [Segment (seg_a (last (segments (player e)))) x] \<and>
           segments (ai e') \<noteq> []"
proof (cases "running e \<and> \<not> paused e")
  case False
  then have u: "update delta e = Some (Inr (updateTimers delta e))"
    by (intro update_idle) blast
  have "last (segments (player e))
      = Segment (seg_a (last (segments (player e)))) (seg_b (last (segments (player e))))"
    by simp
  then have "segments (player e) =
      butlast (segments (player e))
        @ [Segment (seg_a (last (segments (player e)))) (seg_b (last (segments (player e))))]"
    using assms(1) by (metis append_butlast_last_id)
  then have "\<exists>x. segments (player (updateTimers delta e)) =
      butlast (segments (player e)) @ [Segment (seg_a (last (segments (player e)))) x]"
    unfolding updateTimers_fields by (rule exI)
  then show ?thesis
    using u assms(2) by (simp add: updateTimers_fields)
next
  case True
  then have r: "running e" and p: "\<not> paused e" by blast+
  let ?e1 = "updateSpeed delta (updateTimers delta e)"
  from update_running [OF r p assms, of delta] obtain e2 e4 where
    a: "updateAI delta ?e1 = Some e2"
    and c: "commitMoves delta e2 = Inr e4"
    and u: "update delta e =
             Some (Inr (resolveCollisions (nextPos delta e2 (player e2)) (nextPos delta e2 (ai e2)) e4))"
    and r4: "running e4" and s4: "segments (ai e4) \<noteq> []"
    by blast
  note f = updateAI_fields [OF a]
  have pl: "player e2 = player e" by (simp add: f updateSpeed_fields updateTimers_fields)
  have p2: "segments (player e2) \<noteq> []" using assms(1) pl by simp
  have a2: "segments (ai e2) \<noteq> []"
    using assms(2) f(7) by (simp add: updateSpeed_fields updateTimers_fields)
  have "segments (player e4) =
      butlast (segments (player e)) @ [Segment (seg_a (last (segments (player e)))) (nextPos delta e2 (player e2))]"
    using c unfolding commitMoves_Inr [OF p2 a2] pl by auto
  then show ?thesis
    using u s4 resolveCollisions_calls [OF r4] by auto
qed

lemma ticks_player_trail:
  assumes "segments (player e) = S @ [Segment P x0]" "segments (ai e) \<noteq> []"
  shows "\<exists>e' x. performAll (map Tick deltas) e = Some (Inr e') \<and>
           segments (player e') = S @ [Segment P x]"
  using assms
proof (induction deltas arbitrary: e x0)
  case Nil
  then show ?case by simp
next
  case (Cons delta deltas)
  have ne: "segments (player e) \<noteq> []" using Cons.prems(1) by simp
  from update_player_trail [OF ne Cons.prems(2), of delta] obtain e1 x1 where
    u: "update delta e = Some (Inr e1)"
    and s: "segments (player e1) =
             butlast (segments (player e)) @ [Segment (seg_a (last (segments (player e)))) x1]"
    and a: "segments (ai e1) \<noteq> []"
    by blast
  have "segments (player e1) = S @ [Segment P x1]"
    using s unfolding Cons.prems(1) by simp
  from Cons.IH [OF this a] show ?case using u by simp
qed

lemma updateAI_ai_trail:
  assumes "updateAI delta e = Some e2"
  shows "ai e2 = ai e \<or>
         (segments (ai e2) = segments (ai e) @ [Segment (pos (ai e)) (pos (ai e))] \<and>
          pos (ai e2) = pos (ai e))"
  using updateAI_forms [of delta e] assms
  by (auto simp: applyDirection_def Let_def)

lemma update_ai_trail:
  assumes "segments (player e) \<noteq> []" "segments (ai e) \<noteq> []"
  shows "\<exists>e' x. update delta e = Some (Inr e') \<and>
           segments (player e') \<noteq> [] \<and>
           (segments (ai e') =
              butlast (segments (ai e)) @ [Segment (seg_a (last (segments (ai e)))) x] \<or>
            segments (ai e') = segments (ai e) @ [Segment (pos (ai e)) x])"
proof (cases "running e \<and> \<not> paused e")
  case False
  then have u: "update delta e = Some (Inr (updateTimers delta e))"
    by (intro update_idle) blast
  have "last (segments (ai e))
      = Segment (seg_a (last (segments (ai e)))) (seg_b (last (segments (ai e))))"
    by simp
  then have "segments (ai e) =
      butlast (segments (ai e))
        @ [Segment (seg_a (last (segments (ai e)))) (seg_b (last (segments (ai e))))]"
    using assms(2) by (metis append_butlast_last_id)
  then have "\<exists>x. segments (ai (updateTimers delta e)) =
      butlast (segments (ai e)) @ [Segment (seg_a (last (segments (ai e)))) x]"
    unfolding updateTimers_fields by (rule exI)
  then show ?thesis
    using u assms(1) by (auto simp: updateTimers_fields)
next
  case True
  then have r: "running e" and p: "\<not> paused e" by blast+
  let ?e1 = "updateSpeed delta (updateTimers delta e)"
  from update_running [OF r p assms, of delta] obtain e2 e4 where
    a: "updateAI delta ?e1 = Some e2"
    and c: "commitMoves delta e2 = Inr e4"
    and u: "update delta e =
             Some (Inr (resolveCollisions (nextPos delta e2 (player e2)) (nextPos delta e2 (ai e2)) e4))"
    and r4: "running e4" and s4: "segments (player e4) \<noteq> []"
    by blast
  note f = updateAI_fields [OF a]
  have p2: "segments (player e2) \<noteq> []"
    using assms(1) by (simp add: f updateSpeed_fields updateTimers_fields)
  have a2: "segments (ai e2) \<noteq> []"
    using assms(2) f(7) by (simp add: updateSpeed_fields updateTimers_fields)
  have c4: "segments (ai e4) =
      butlast (segments (ai e2)) @ [Segment (seg_a (last (segments (ai e2)))) (nextPos delta e2 (ai e2))]"
    using c unfolding commitMoves_Inr [OF p2 a2] by auto
  from updateAI_ai_trail [OF a] have
    "ai e2 = ai e \<or>
       (segments (ai e2) = segments (ai e) @ [Segment (pos (ai e)) (pos (ai e))] \<and>
        pos (ai e2) = pos (ai e))"
    by (simp add: updateSpeed_fields updateTimers_fields)
  then have "segments (ai e4) =
              butlast (segments (ai e)) @ [Segment (seg_a (last (segments (ai e)))) (nextPos delta e2 (ai e2))] \<or>
            segments (ai e4) = segments (ai e) @ [Segment (pos (ai e)) (nextPos delta e2 (ai e2))]"
    unfolding c4 by auto
  then show ?thesis
    using u s4 resolveCollisions_calls [OF r4] by auto
qed

lemma ticks_ai_trail:
  assumes "segments (ai e) = S @ [Segment P x0]" "segments (player e) \<noteq> []"
  shows "\<exists>e'. performAll (map Tick deltas) e = Some (Inr e') \<and>
           length (segments (ai e)) \<le> length (segments (ai e')) \<and>
           (length (segments (ai e')) = length (segments (ai e)) \<longrightarrow>
              (\<exists>x. segments (ai e') = S @ [Segment P x]))"
  using assms
proof (induction deltas arbitrary: e S P x0)
  case Nil
  then show ?case by simp
next
  case (Cons delta deltas)
  have ne: "segments (ai e) \<noteq> []" using Cons.prems(1) by simp
  from update_ai_trail [OF Cons.prems(2) ne, of delta] obtain e1 x1 where
    u: "update delta e = Some (Inr e1)"
    and pl: "segments (player e1) \<noteq> []"
    and s: "segments (ai e1) =
              butlast (segments (ai e)) @ [Segment (seg_a (last (segments (ai e)))) x1] \<or>
            segments (ai e1) = segments (ai e) @ [Segment (pos (ai e)) x1]"
    by blast
  from s show ?case
  proof
    assume "segments (ai e1) =
              butlast (segments (ai e)) @ [Segment (seg_a (last (segments (ai e)))) x1]"
    then have s1: "segments (ai e1) = S @ [Segment P x1]"
      unfolding Cons.prems(1) by simp
    have len: "length (segments (ai e1)) = length (segments (ai e))"
      unfolding s1 Cons.prems(1) by simp
    from Cons.IH [OF s1 pl] show ?thesis using u unfolding len by simp
  next
    assume s1: "segments (ai e1) = segments (ai e) @ [Segment (pos (ai e)) x1]"
    have len: "length (segments (ai e1)) = length (segments (ai e)) + 1"
      unfolding s1 by simp
    from Cons.IH [OF s1 pl] obtain e' where
      "performAll (map Tick deltas) e1 = Some (Inr e')"
      "length (segments (ai e1)) \<le> length (segments (ai e'))"
      by blast
    then show ?thesis using u len by auto
  qed
qed

lemma turning_tick_ai_trail:
  assumes "running e" "\<not> paused e" "segments (player e) \<noteq> []" "segments (ai e) \<noteq> []"
  shows "\<exists>e2 e4 e1.
           updateAI delta (updateSpeed delta (updateTimers delta e)) = Some e2 \<and>
           commitMoves delta e2 = Inr e4 \<and>
           update delta e = Some (Inr e1) \<and>
           ai e1 = ai e4 \<and>
           (length (segments (ai e2)) \<noteq> length (segments (ai e)) \<longrightarrow>
              segments (ai e2) = segments (ai e) @ [Segment (pos (ai e)) (pos (ai e))] \<and>
              (\<forall>deltas. \<exists>e'.
                 performAll (map Tick deltas) e1 = Some (Inr e') \<and>
                 (length (segments (ai e')) = length (segments (ai e1)) \<longrightarrow>
                    (\<exists>x. segments (ai e') = segments (ai e) @ [Segment (pos (ai e)) x]) \<and>
                    take (length (segments (ai e')) - 2) (segments (ai e'))
                      = butlast (segments (ai e)))))"
proof -
  let ?e1 = "updateSpeed delta (updateTimers delta e)"
  from update_running [OF assms, of delta] obtain e2 e4 where
    a: "updateAI delta ?e1 = Some e2"
    and c: "commitMoves delta e2 = Inr e4"
    and u: "update delta e =
             Some (Inr (resolveCollisions (nextPos delta e2 (player e2)) (nextPos delta e2 (ai e2)) e4))"
    and r4: "running e4" and s4: "segments (player e4) \<noteq> []"
    by blast
  let ?r = "resolveCollisions (nextPos delta e2 (player e2)) (nextPos delta e2 (ai e2)) e4"
  note res = resolveCollisions_calls [OF r4, of "nextPos delta e2 (player e2)" "nextPos delta e2 (ai e2)"]
  have ai: "ai ?r = ai e4" and pl: "segments (player ?r) \<noteq> []" using res s4 by simp_all
  note f = updateAI_fields [OF a]
  have p2: "segments (player e2) \<noteq> []"
    using assms(3) by (simp add: f updateSpeed_fields updateTimers_fields)
  have a2: "segments (ai e2) \<noteq> []"
    using assms(4) f(7) by (simp add: updateSpeed_fields updateTimers_fields)
  have c4: "segments (ai e4) =
      butlast (segments (ai e2)) @ [Segment (seg_a (last (segments (ai e2)))) (nextPos delta e2 (ai e2))]"
    using c unfolding commitMoves_Inr [OF p2 a2] by auto
  from updateAI_ai_trail [OF a] have alt:
    "ai e2 = ai e \<or>
       (segments (ai e2) = segments (ai e) @ [Segment (pos (ai e)) (pos (ai e))] \<and>
        pos (ai e2) = pos (ai e))"
    by (simp add: updateSpeed_fields updateTimers_fields)
  have turn: "segments (ai e2) = segments (ai e) @ [Segment (pos (ai e)) (pos (ai e))] \<and>
              (\<forall>deltas. \<exists>e'.
                 performAll (map Tick deltas) ?r = Some (Inr e') \<and>
                 (length (segments (ai e')) = length (segments (ai ?r)) \<longrightarrow>
                    (\<exists>x. segments (ai e') = segments (ai e) @ [Segment (pos (ai e)) x]) \<and>
                    take (length (segments (ai e')) - 2) (segments (ai e'))
                      = butlast (segments (ai e))))"
    if "length (segments (ai e2)) \<noteq> length (segments (ai e))"
  proof -
    from alt that have s2: "segments (ai e2) = segments (ai e) @ [Segment (pos (ai e)) (pos (ai e))]"
      by auto
    have sr: "segments (ai ?r) = segments (ai e) @ [Segment (pos (ai e)) (nextPos delta e2 (ai e2))]"
      unfolding ai c4 s2 by simp
    have "\<exists>e'. performAll (map Tick deltas) ?r = Some (Inr e') \<and>
                 (length (segments (ai e')) = length (segments (ai ?r)) \<longrightarrow>
                    (\<exists>x. segments (ai e') = segments (ai e) @ [Segment (pos (ai e)) x]) \<and>
                    take (length (segments (ai e')) - 2) (segments (ai e'))
                      = butlast (segments (ai e)))" for deltas
    proof -
      from ticks_ai_trail [OF sr pl, of deltas] obtain e' where
        p: "performAll (map Tick deltas) ?r = Some (Inr e')"
        and k: "length (segments (ai e')) = length (segments (ai ?r)) \<longrightarrow>
              (\<exists>x. segments (ai e') = segments (ai e) @ [Segment (pos (ai e)) x])"
        by blast
      have "take (length (segments (ai e')) - 2) (segments (ai e')) = butlast (segments (ai e))"
        if "segments (ai e') = segments (ai e) @ [Segment (pos (ai e)) x]" for x
        using assms(4) unfolding that by (simp add: butlast_conv_take)
      with p k show ?thesis by blast
    qed
    with s2 show ?thesis by blast
  qed
  show ?thesis
    using a c u ai turn by blast
qed


lemma turnState_first_decision:
  "map_option (\<lambda>e. length (segments (ai e)))
     (updateAI 0.05 (updateSpeed 0.05 (updateTimers 0.05 turnState)))
     = Some 2"
  by code_simp

text \<open>
  C4 (amended). The collision test looks at the arena bounds, at all segments of the other
  agent and, of the agent's own trail, only at the segments before the last two; a point
  that is within the radius of nothing but one of the last two own segments is no
  collision. For either agent, after a turn and any number of ticks without another turn
  of that agent the own segments tested are the trail as it was before the turn without its
  last segment: the segment that was being drawn when the turn was made is never tested,
  the older ones still are. For the player the turn is the one \<open>setPlayerDirection\<close>
  applies; for the opponent it is the one \<open>updateAI\<close> applies inside a tick (the tick in
  which the opponent's trail gets a new segment), and the ticks after it count as long as
  the opponent's trail gets no further segment.
\<close>

theorem self_test_skips_last_two_segments:
  assumes "running e" and "segments (player e) \<noteq> []" and "segments (ai e) \<noteq> []"
    and "dir (player e) = DIRECTION_VECTORS c"
    and "vx (DIRECTION_VECTORS c) * vx (DIRECTION_VECTORS d)
           + vy (DIRECTION_VECTORS c) * vy (DIRECTION_VECTORS d) = 0"
  shows "(checkCollision e0 point self other 0 \<longleftrightarrow>
            (vx point \<le> 6 \<or> vx point \<ge> width e0 - 6 \<or> vy point \<le> 6 \<or> vy point \<ge> height e0 - 6) \<or>
            (\<exists>s \<in> set (segments other). distancePointToSegment point (seg_a s) (seg_b s) \<le> 6) \<or>
            (\<exists>s \<in> set (take (length (segments self) - 2) (segments self)).
                distancePointToSegment point (seg_a s) (seg_b s) \<le> 6)) \<and>
         (\<exists>e' x. performAll (map Tick deltas) (setPlayerDirection d e) = Some (Inr e') \<and>
                 segments (player e') = segments (player e) @ [Segment (pos (player e)) x] \<and>
                 take (length (segments (player e')) - 2) (segments (player e'))
                   = butlast (segments (player e))) \<and>
         (\<not> paused e \<longrightarrow>
            (\<exists>e2 e4 e1.
               updateAI delta (updateSpeed delta (updateTimers delta e)) = Some e2 \<and>
               commitMoves delta e2 = Inr e4 \<and>
               update delta e = Some (Inr e1) \<and>
               ai e1 = ai e4 \<and>
               (length (segments (ai e2)) \<noteq> length (segments (ai e)) \<longrightarrow>
                  segments (ai e2) = segments (ai e) @ [Segment (pos (ai e)) (pos (ai e))] \<and>
                  (\<forall>ticks. \<exists>e'.
                     performAll (map Tick ticks) e1 = Some (Inr e') \<and>
                     (length (segments (ai e')) = length (segments (ai e1)) \<longrightarrow>
                        (\<exists>x. segments (ai e') = segments (ai e) @ [Segment (pos (ai e)) x]) \<and>
                        take (length (segments (ai e')) - 2) (segments (ai e'))
                          = butlast (segments (ai e)))))))"
proof -
  have np: "\<not> isOpposite (dir (player e)) (DIRECTION_VECTORS d) \<and>
            \<not> isSameDirection (dir (player e)) (DIRECTION_VECTORS d)"
    using assms(5) unfolding assms(4) by (simp add: perpendicular_DIRECTION_VECTORS)
  have t: "setPlayerDirection d e = applyDirection Player (DIRECTION_VECTORS d) e"
    using assms(1) np by (simp add: setPlayerDirection_turn)
  have s: "segments (player (setPlayerDirection d e))
             = segments (player e) @ [Segment (pos (player e)) (pos (player e))]"
    and a: "segments (ai (setPlayerDirection d e)) \<noteq> []"
    using assms(3) unfolding t by (simp_all add: applyDirection_def Let_def)
  from ticks_player_trail [OF s a, of deltas] obtain e' x where
    r: "performAll (map Tick deltas) (setPlayerDirection d e) = Some (Inr e')"
    and k: "segments (player e') = segments (player e) @ [Segment (pos (player e)) x]"
    by blast
  have "take (length (segments (player e')) - 2) (segments (player e')) = butlast (segments (player e))"
    using assms(2) unfolding k by (simp add: butlast_conv_take)
  with r k have pl: "\<exists>e' x. performAll (map Tick deltas) (setPlayerDirection d e) = Some (Inr e') \<and>
                 segments (player e') = segments (player e) @ [Segment (pos (player e)) x] \<and>
                 take (length (segments (player e')) - 2) (segments (player e'))
                   = butlast (segments (player e))"
    by blast
  show ?thesis
  proof (intro conjI impI)
    show "checkCollision e0 point self other 0 \<longleftrightarrow>
            (vx point \<le> 6 \<or> vx point \<ge> width e0 - 6 \<or> vy point \<le> 6 \<or> vy point \<ge> height e0 - 6) \<or>
            (\<exists>s \<in> set (segments other). distancePointToSegment point (seg_a s) (seg_b s) \<le> 6) \<or>
            (\<exists>s \<in> set (take (length (segments self) - 2) (segments self)).
                distancePointToSegment point (seg_a s) (seg_b s) \<le> 6)"
      by (rule checkCollision_iff)
    show "\<exists>e' x. performAll (map Tick deltas) (setPlayerDirection d e) = Some (Inr e') \<and>
                 segments (player e') = segments (player e) @ [Segment (pos (player e)) x] \<and>
                 take (length (segments (player e')) - 2) (segments (player e'))
                   = butlast (segments (player e))"
      by (rule pl)
  next
    assume q: "\<not> paused e"
    show "\<exists>e2 e4 e1.
               updateAI delta (updateSpeed delta (updateTimers delta e)) = Some e2 \<and>
               commitMoves delta e2 = Inr e4 \<and>
               update delta e = Some (Inr e1) \<and>
               ai e1 = ai e4 \<and>
               (length (segments (ai e2)) \<noteq> length (segments (ai e)) \<longrightarrow>
                  segments (ai e2) = segments (ai e) @ [Segment (pos (ai e)) (pos (ai e))] \<and>
                  (\<forall>ticks. \<exists>e'.
                     performAll (map Tick ticks) e1 = Some (Inr e') \<and>
                     (length (segments (ai e')) = length (segments (ai e1)) \<longrightarrow>
                        (\<exists>x. segments (ai e') = segments (ai e) @ [Segment (pos (ai e)) x]) \<and>
                        take (length (segments (ai e')) - 2) (segments (ai e'))
                          = butlast (segments (ai e)))))"
      by (rule turning_tick_ai_trail [OF assms(1) q assms(2,3)])
  qed
qed

theorem self_test_skips_last_two_segments_witness:
  "running turnState \<and>
   \<not> paused turnState \<and>
   segments (player turnState) \<noteq> [] \<and>
   segments (ai turnState) \<noteq> [] \<and>
   dir (player turnState)
     = DIRECTION_VECTORS Right \<and>
   vx (DIRECTION_VECTORS Right) * vx (DIRECTION_VECTORS Up)
     + vy (DIRECTION_VECTORS Right) * vy (DIRECTION_VECTORS Up) = 0 \<and>
   (\<exists>e' x. performAll (map Tick [0.05, 0.05])
              (setPlayerDirection Up turnState)
              = Some (Inr e') \<and>
           segments (player e') =
             segments (player turnState)
               @ [Segment (pos (player turnState)) x] \<and>
           take (length (segments (player e')) - 2) (segments (player e'))
             = butlast (segments (player turnState))) \<and>
   (\<exists>e2 e1 x.
      updateAI 0.05 (updateSpeed 0.05 (updateTimers 0.05 turnState)) = Some e2 \<and>
      length (segments (ai e2)) = 2 \<and>
      length (segments (ai turnState)) = 1 \<and>
      update 0.05 turnState = Some (Inr e1) \<and>
      segments (ai e1) =
        segments (ai turnState)
          @ [Segment (pos (ai turnState)) x] \<and>
      take (length (segments (ai e1)) - 2) (segments (ai e1))
        = butlast (segments (ai turnState)))"
proof -
  let ?e = "turnState"
  have r: "running ?e" and q: "\<not> paused ?e"
    and s: "segments (player ?e) \<noteq> []" and t: "segments (ai ?e) \<noteq> []"
    and h: "dir (player ?e) = DIRECTION_VECTORS Right"
    unfolding turnState_def by (rule startRound_fields)+
  have p: "vx (DIRECTION_VECTORS Right) * vx (DIRECTION_VECTORS Up)
            + vy (DIRECTION_VECTORS Right) * vy (DIRECTION_VECTORS Up) = 0"
    by simp
  have l1: "length (segments (ai ?e)) = 1"
    by (simp add: turnState_def startRound_def resetRoundState_def Let_def)
  note w = self_test_skips_last_two_segments [OF r s t h p, of _ _ _ _ "[0.05, 0.05]" "0.05"]
  from w have pl: "\<exists>e' x. performAll (map Tick [0.05, 0.05]) (setPlayerDirection Up ?e) = Some (Inr e') \<and>
           segments (player e') = segments (player ?e) @ [Segment (pos (player ?e)) x] \<and>
           take (length (segments (player e')) - 2) (segments (player e'))
             = butlast (segments (player ?e))"
    by blast
  from w q obtain e2 e1 where
    a: "updateAI 0.05 (updateSpeed 0.05 (updateTimers 0.05 ?e)) = Some e2"
    and u: "update 0.05 ?e = Some (Inr e1)"
    and i: "length (segments (ai e2)) \<noteq> length (segments (ai ?e)) \<longrightarrow>
              (\<forall>ticks. \<exists>e'.
                 performAll (map Tick ticks) e1 = Some (Inr e') \<and>
                 (length (segments (ai e')) = length (segments (ai e1)) \<longrightarrow>
                    (\<exists>x. segments (ai e') = segments (ai ?e) @ [Segment (pos (ai ?e)) x]) \<and>
                    take (length (segments (ai e')) - 2) (segments (ai e'))
                      = butlast (segments (ai ?e))))"
    by blast
  have l2: "length (segments (ai e2)) = 2"
    using turnState_first_decision unfolding a by simp
  have ne: "length (segments (ai e2)) \<noteq> length (segments (ai ?e))"
    unfolding l1 l2 by simp
  from i ne have al: "\<forall>ticks. \<exists>e'.
                 performAll (map Tick ticks) e1 = Some (Inr e') \<and>
                 (length (segments (ai e')) = length (segments (ai e1)) \<longrightarrow>
                    (\<exists>x. segments (ai e') = segments (ai ?e) @ [Segment (pos (ai ?e)) x]) \<and>
                    take (length (segments (ai e')) - 2) (segments (ai e'))
                      = butlast (segments (ai ?e)))"
    by blast
  from spec [OF al, of "[]"] obtain e' where
    pe: "performAll (map Tick []) e1 = Some (Inr e')"
    and k: "length (segments (ai e')) = length (segments (ai e1)) \<longrightarrow>
              (\<exists>x. segments (ai e') = segments (ai ?e) @ [Segment (pos (ai ?e)) x]) \<and>
              take (length (segments (ai e')) - 2) (segments (ai e'))
                = butlast (segments (ai ?e))"
    by blast
  have ee: "e' = e1" using pe by simp
  from k obtain x where
    "segments (ai e1) = segments (ai ?e) @ [Segment (pos (ai ?e)) x]"
    "take (length (segments (ai e1)) - 2) (segments (ai e1)) = butlast (segments (ai ?e))"
    unfolding ee by blast
  then show ?thesis using r q s t h p pl a l1 l2 u by blast
qed

lemmas input_defs = setPlayerDirection_def applyDirection_def isOpposite_def isSameDirection_def

text \<open>
  C4 as stated fails in its last part: going straight right after a turn can hit the trail
  laid before the turn. After the U-turn the next position is 3 pixels from the first
  segment, which is not among the last two, and the tick ends the round for the opponent.
\<close>

theorem straight_after_turn_counterexample:
  "performAll [SetPlayerDirection Up, Tick 0.0125, SetPlayerDirection Left] (duelState 200 600)
     = Some (Inr uTurnState) \<and>
   running uTurnState \<and> \<not> paused uTurnState \<and>
   nextPos 0.05 uTurnState (player uTurnState) = Vec 188 297 \<and>
   distancePointToSegment (Vec 188 297) (Vec 80 300) (Vec 200 300)
     \<le> COLLISION_RADIUS + COLLISION_TOLERANCE \<and>
   update 0.05 uTurnState =
     Some (Inr (uTurnState
       \<lparr> player := (player uTurnState)
            \<lparr> pos := Vec 188 297,
              segments := [Segment (Vec 80 300) (Vec 200 300), Segment (Vec 200 300) (Vec 200 297),
                           Segment (Vec 200 297) (Vec 188 297)] \<rparr>,
         ai := (ai uTurnState)
            \<lparr> pos := Vec 585 300, segments := [Segment (Vec 720 300) (Vec 585 300)] \<rparr>,
         running := False, speedTimer := 0.0625, aiDecisionTimer := 0.0375,
         aiDistanceSinceTurn := 15,
         crashTimerPlayer := 0.6, crashedPlayer := True,
         wallShrinkPlayer := \<lparr> delay = 0.6, progress = 0, active = True \<rparr>,
         calls := [OnTurn Player, OnTurn Player, OnRoundEnd ResAi] \<rparr>))"
proof -
  have "performAll [SetPlayerDirection Up, Tick 0.0125, SetPlayerDirection Left] (duelState 200 600)
     = Some (Inr uTurnState)"
    by (simp add: uTurnState_def duelState_def start_defs tick_defs const_defs hypot_le_iff Let_def
          input_defs)
  moreover have "running uTurnState" "\<not> paused uTurnState"
    "nextPos 0.05 uTurnState (player uTurnState) = Vec 188 297"
    by (simp_all add: uTurnState_def duelState_def start_defs nextPos_def moveDistance_def const_defs)
  moreover have "distancePointToSegment (Vec 188 297) (Vec 80 300) (Vec 200 300)
     \<le> COLLISION_RADIUS + COLLISION_TOLERANCE"
    by (simp add: distancePointToSegment_def distance_def hypot_le_iff const_defs Let_def)
  moreover have "update 0.05 uTurnState =
     Some (Inr (uTurnState
       \<lparr> player := (player uTurnState)
            \<lparr> pos := Vec 188 297,
              segments := [Segment (Vec 80 300) (Vec 200 300), Segment (Vec 200 300) (Vec 200 297),
                           Segment (Vec 200 297) (Vec 188 297)] \<rparr>,
         ai := (ai uTurnState)
            \<lparr> pos := Vec 585 300, segments := [Segment (Vec 720 300) (Vec 585 300)] \<rparr>,
         running := False, speedTimer := 0.0625, aiDecisionTimer := 0.0375,
         aiDistanceSinceTurn := 15,
         crashTimerPlayer := 0.6, crashedPlayer := True,
         wallShrinkPlayer := \<lparr> delay = 0.6, progress = 0, active = True \<rparr>,
         calls := [OnTurn Player, OnTurn Player, OnRoundEnd ResAi] \<rparr>))"
    by (simp add: uTurnState_def duelState_def start_defs tick_defs const_defs hypot_le_iff Let_def)
  ultimately show ?thesis by blast
qed

subsection \<open>One outcome per round\<close>

lemma update_round:
  assumes "segments (player e) \<noteq> []" "segments (ai e) \<noteq> []"
  shows "\<exists>e'. update delta e = Some (Inr e') \<and>
           segments (player e') \<noteq> [] \<and> segments (ai e') \<noteq> [] \<and>
           (running e \<longrightarrow> (if running e' then roundEnds e' = roundEnds e
                            else roundEnds e' = roundEnds e + 1)) \<and>
           (\<not> running e \<longrightarrow>
              \<not> running e' \<and> player e' = player e \<and> ai e' = ai e \<and> speed e' = speed e \<and>
              speedTimer e' = speedTimer e \<and> aiDecisionTimer e' = aiDecisionTimer e \<and>
              aiDistanceSinceTurn e' = aiDistanceSinceTurn e \<and> calls e' = calls e)"
proof (cases "running e \<and> \<not> paused e")
  case False
  then have u: "update delta e = Some (Inr (updateTimers delta e))"
    by (intro update_idle) blast
  show ?thesis
    unfolding u using assms by (simp add: updateTimers_fields roundEnds_def)
next
  case True
  then have r: "running e" and p: "\<not> paused e" by blast+
  from update_running [OF r p assms, of delta] obtain e2 e4 where
    u: "update delta e =
             Some (Inr (resolveCollisions (nextPos delta e2 (player e2)) (nextPos delta e2 (ai e2)) e4))"
    and r4: "running e4" and k: "calls e4 = calls e2" and re: "roundEnds e2 = roundEnds e"
    and s: "segments (player e4) \<noteq> []" "segments (ai e4) \<noteq> []"
    by blast
  let ?e' = "resolveCollisions (nextPos delta e2 (player e2)) (nextPos delta e2 (ai e2)) e4"
  note res = resolveCollisions_calls [OF r4, of "nextPos delta e2 (player e2)" "nextPos delta e2 (ai e2)"]
  have r4e: "roundEnds e4 = roundEnds e" using k re by (simp add: roundEnds_def)
  have "if running ?e' then roundEnds ?e' = roundEnds e else roundEnds ?e' = roundEnds e + 1"
    using res r4e by (auto simp: roundEnds_def)
  then show ?thesis
    unfolding u using r s res by simp
qed

lemma setPlayerDirection_round:
  "segments (player e) \<noteq> [] \<Longrightarrow> segments (ai e) \<noteq> [] \<Longrightarrow>
   segments (player (setPlayerDirection d e)) \<noteq> [] \<and>
   segments (ai (setPlayerDirection d e)) \<noteq> [] \<and>
   running (setPlayerDirection d e) = running e \<and>
   roundEnds (setPlayerDirection d e) = roundEnds e \<and>
   (\<not> running e \<longrightarrow> setPlayerDirection d e = e)"
  by (simp add: setPlayerDirection_def applyDirection_def Let_def roundEnds_def)

lemma perform_round:
  assumes "c \<noteq> StartRound" "c \<noteq> Reset"
    and "segments (player e) \<noteq> []" "segments (ai e) \<noteq> []"
  shows "\<exists>e'. perform c e = Some (Inr e') \<and>
           segments (player e') \<noteq> [] \<and> segments (ai e') \<noteq> [] \<and>
           (running e \<longrightarrow> (if running e' then roundEnds e' = roundEnds e
                            else roundEnds e' = roundEnds e + 1)) \<and>
           (\<not> running e \<longrightarrow>
              \<not> running e' \<and> player e' = player e \<and> ai e' = ai e \<and> speed e' = speed e \<and>
              speedTimer e' = speedTimer e \<and> aiDecisionTimer e' = aiDecisionTimer e \<and>
              aiDistanceSinceTurn e' = aiDistanceSinceTurn e \<and> calls e' = calls e)"
proof (cases c)
  case (Tick delta)
  then show ?thesis using update_round [OF assms(3,4), of delta] by simp
next
  case (SetPlayerDirection d)
  then show ?thesis using setPlayerDirection_round [OF assms(3,4), of d] by auto
next
  case Pause
  then show ?thesis using assms(3,4) by (simp add: pause_def roundEnds_def)
next
  case Resume
  then show ?thesis using assms(3,4) by (simp add: resume_def roundEnds_def)
next
  case (SetDifficulty level)
  then show ?thesis using assms(3,4) by (simp add: setDifficulty_def roundEnds_def)
next
  case (Resize w h)
  then show ?thesis using assms(3,4) by (simp add: resize_def roundEnds_def)
next
  case StartRound
  then show ?thesis using assms(1) by simp
next
  case Reset
  then show ?thesis using assms(2) by simp
qed

lemma performAll_stopped:
  assumes "\<forall>c \<in> set cs. c \<noteq> StartRound \<and> c \<noteq> Reset"
    and "segments (player e) \<noteq> []" "segments (ai e) \<noteq> []" and "\<not> running e"
  shows "\<exists>e'. performAll cs e = Some (Inr e') \<and>
           \<not> running e' \<and> player e' = player e \<and> ai e' = ai e \<and> speed e' = speed e \<and>
           speedTimer e' = speedTimer e \<and> aiDecisionTimer e' = aiDecisionTimer e \<and>
           aiDistanceSinceTurn e' = aiDistanceSinceTurn e \<and> calls e' = calls e"
  using assms
proof (induction cs arbitrary: e)
  case Nil
  then show ?case by simp
next
  case (Cons c cs)
  have c: "c \<noteq> StartRound" "c \<noteq> Reset" using Cons.prems(1) by auto
  from perform_round [OF c Cons.prems(2,3)] Cons.prems(4) obtain e1 where
    p: "perform c e = Some (Inr e1)"
    and s: "segments (player e1) \<noteq> []" "segments (ai e1) \<noteq> []"
    and f: "\<not> running e1" "player e1 = player e" "ai e1 = ai e" "speed e1 = speed e"
      "speedTimer e1 = speedTimer e" "aiDecisionTimer e1 = aiDecisionTimer e"
      "aiDistanceSinceTurn e1 = aiDistanceSinceTurn e" "calls e1 = calls e"
    by blast
  have cs: "\<forall>c \<in> set cs. c \<noteq> StartRound \<and> c \<noteq> Reset" using Cons.prems(1) by simp
  from Cons.IH [OF cs s f(1)] show ?case using p f by simp
qed

lemma performAll_round:
  assumes "\<forall>c \<in> set cs. c \<noteq> StartRound \<and> c \<noteq> Reset"
    and "segments (player e) \<noteq> []" "segments (ai e) \<noteq> []" and "running e"
  shows "\<exists>e'. performAll cs e = Some (Inr e') \<and>
           segments (player e') \<noteq> [] \<and> segments (ai e') \<noteq> [] \<and>
           (if running e' then roundEnds e' = roundEnds e else roundEnds e' = roundEnds e + 1)"
  using assms
proof (induction cs arbitrary: e)
  case Nil
  then show ?case by simp
next
  case (Cons c cs)
  have c: "c \<noteq> StartRound" "c \<noteq> Reset" using Cons.prems(1) by auto
  have cs: "\<forall>c \<in> set cs. c \<noteq> StartRound \<and> c \<noteq> Reset" using Cons.prems(1) by simp
  from perform_round [OF c Cons.prems(2,3)] Cons.prems(4) obtain e1 where
    p: "perform c e = Some (Inr e1)"
    and s: "segments (player e1) \<noteq> []" "segments (ai e1) \<noteq> []"
    and f: "if running e1 then roundEnds e1 = roundEnds e else roundEnds e1 = roundEnds e + 1"
    by blast
  show ?case
  proof (cases "running e1")
    case True
    then have re: "roundEnds e1 = roundEnds e" using f by simp
    from Cons.IH [OF cs s True] obtain e' where
      "performAll cs e1 = Some (Inr e')" "segments (player e') \<noteq> []" "segments (ai e') \<noteq> []"
      "if running e' then roundEnds e' = roundEnds e1 else roundEnds e' = roundEnds e1 + 1"
      by blast
    then show ?thesis using p unfolding re by simp
  next
    case False
    from performAll_stopped [OF cs s False] obtain e' where
      "performAll cs e1 = Some (Inr e')" "\<not> running e'" "player e' = player e1" "ai e' = ai e1"
      "calls e' = calls e1" by blast
    then show ?thesis using p f s False by (simp add: roundEnds_def)
  qed
qed


text \<open>
  C7. Take any sequence of calls made after \<open>startRound\<close> that contains neither
  \<open>startRound\<close> nor \<open>reset\<close>. All of them return, and the round-end callback has been
  called at most once since the round started: not at all while the round is still running,
  exactly once when it is not. A tick of the running, unpaused round in which the
  head-to-head test or one of the two collision tests holds makes that one call and stops
  the round. Once the round has stopped, further calls (again without \<open>startRound\<close> and
  \<open>reset\<close>) leave both agents, the speed, the speed and decision timers, the distance
  since the opponent's last turn and the callback log as they are.
\<close>

theorem round_outcome_raised_once:
  assumes "\<forall>c \<in> set cs. c \<noteq> StartRound \<and> c \<noteq> Reset"
  shows "\<exists>e'. performAll cs (startRound e) = Some (Inr e') \<and>
           (if running e' then roundEnds e' = roundEnds e else roundEnds e' = roundEnds e + 1) \<and>
           (\<not> running e' \<longrightarrow>
              (\<forall>ds. (\<forall>c \<in> set ds. c \<noteq> StartRound \<and> c \<noteq> Reset) \<longrightarrow>
                 (\<exists>e''. performAll ds e' = Some (Inr e'') \<and>
                    \<not> running e'' \<and> player e'' = player e' \<and> ai e'' = ai e' \<and>
                    speed e'' = speed e' \<and> speedTimer e'' = speedTimer e' \<and>
                    aiDecisionTimer e'' = aiDecisionTimer e' \<and>
                    aiDistanceSinceTurn e'' = aiDistanceSinceTurn e' \<and> calls e'' = calls e'))) \<and>
           (running e' \<and> \<not> paused e' \<longrightarrow>
              (\<forall>delta. \<exists>e2 e4 e''.
                 updateAI delta (updateSpeed delta (updateTimers delta e')) = Some e2 \<and>
                 commitMoves delta e2 = Inr e4 \<and>
                 update delta e' = Some (Inr e'') \<and>
                 (headHit (nextPos delta e2 (player e2)) (nextPos delta e2 (ai e2)) \<or>
                  playerHit (nextPos delta e2 (player e2)) e4 \<or>
                  aiHit (nextPos delta e2 (ai e2)) e4
                  \<longrightarrow> \<not> running e'' \<and> roundEnds e'' = roundEnds e + 1)))"
proof -
  have re: "roundEnds (startRound e) = roundEnds e"
    by (simp add: roundEnds_def startRound_fields)
  from performAll_round [OF assms, of "startRound e"] obtain e' where
    p: "performAll cs (startRound e) = Some (Inr e')"
    and s: "segments (player e') \<noteq> []" "segments (ai e') \<noteq> []"
    and f: "if running e' then roundEnds e' = roundEnds e else roundEnds e' = roundEnds e + 1"
    unfolding re by (auto simp: startRound_fields)
  have stop: "\<exists>e''. performAll ds e' = Some (Inr e'') \<and>
                    \<not> running e'' \<and> player e'' = player e' \<and> ai e'' = ai e' \<and>
                    speed e'' = speed e' \<and> speedTimer e'' = speedTimer e' \<and>
                    aiDecisionTimer e'' = aiDecisionTimer e' \<and>
                    aiDistanceSinceTurn e'' = aiDistanceSinceTurn e' \<and> calls e'' = calls e'"
    if "\<not> running e'" "\<forall>c \<in> set ds. c \<noteq> StartRound \<and> c \<noteq> Reset" for ds
    using performAll_stopped [OF that(2) s that(1)] .
  have hit: "\<exists>e2 e4 e''.
                 updateAI delta (updateSpeed delta (updateTimers delta e')) = Some e2 \<and>
                 commitMoves delta e2 = Inr e4 \<and>
                 update delta e' = Some (Inr e'') \<and>
                 (headHit (nextPos delta e2 (player e2)) (nextPos delta e2 (ai e2)) \<or>
                  playerHit (nextPos delta e2 (player e2)) e4 \<or>
                  aiHit (nextPos delta e2 (ai e2)) e4
                  \<longrightarrow> \<not> running e'' \<and> roundEnds e'' = roundEnds e + 1)"
    if r: "running e'" and q: "\<not> paused e'" for delta
  proof -
    from update_running [OF r q s, of delta] obtain e2 e4 where
      a: "updateAI delta (updateSpeed delta (updateTimers delta e')) = Some e2"
      and c: "commitMoves delta e2 = Inr e4"
      and u: "update delta e' =
             Some (Inr (resolveCollisions (nextPos delta e2 (player e2)) (nextPos delta e2 (ai e2)) e4))"
      and r4: "running e4" and k: "calls e4 = calls e2" and r2: "roundEnds e2 = roundEnds e'"
      by blast
    note res = resolveCollisions_calls [OF r4, of "nextPos delta e2 (player e2)" "nextPos delta e2 (ai e2)"]
    have r4e: "roundEnds e4 = roundEnds e" using k r2 f r by (simp add: roundEnds_def)
    have "headHit (nextPos delta e2 (player e2)) (nextPos delta e2 (ai e2)) \<or>
                  playerHit (nextPos delta e2 (player e2)) e4 \<or>
                  aiHit (nextPos delta e2 (ai e2)) e4
          \<longrightarrow> \<not> running (resolveCollisions (nextPos delta e2 (player e2)) (nextPos delta e2 (ai e2)) e4) \<and>
              roundEnds (resolveCollisions (nextPos delta e2 (player e2)) (nextPos delta e2 (ai e2)) e4)
                = roundEnds e + 1"
      using res r4e by (auto simp: roundEnds_def)
    then show ?thesis using a c u by blast
  qed
  show ?thesis
    using p f stop hit by blast
qed

theorem round_outcome_raised_once_witness:
  "running (startRound (newEngine 800 10)) \<and> \<not> paused (startRound (newEngine 800 10)) \<and>
   (\<exists>e'. performAll [Tick 0.05] (startRound (newEngine 800 10)) = Some (Inr e') \<and>
         \<not> running e' \<and> roundEnds e' = 1 \<and>
         (\<exists>e''. performAll [Tick 0.05, SetPlayerDirection Up] e' = Some (Inr e'') \<and>
                player e'' = player e' \<and> ai e'' = ai e' \<and> calls e'' = calls e'))"
proof -
  let ?E = "newEngine 800 10"
  have n0: "\<forall>c \<in> set ([] :: call list). c \<noteq> StartRound \<and> c \<noteq> Reset" by simp
  have n1: "\<forall>c \<in> set [Tick 0.05]. c \<noteq> StartRound \<and> c \<noteq> Reset" by simp
  have n2: "\<forall>c \<in> set [Tick 0.05, SetPlayerDirection Up]. c \<noteq> StartRound \<and> c \<noteq> Reset" by simp
  have z: "roundEnds ?E = 0" by (simp add: roundEnds_def start_defs)
  have rp: "running (startRound ?E) \<and> \<not> paused (startRound ?E)" by (simp add: startRound_fields)
  from round_outcome_raised_once [OF n0, of ?E] obtain e0 where
    p0: "performAll [] (startRound ?E) = Some (Inr e0)"
    and t0: "running e0 \<and> \<not> paused e0 \<longrightarrow>
              (\<forall>delta. \<exists>e2 e4 e''.
                 updateAI delta (updateSpeed delta (updateTimers delta e0)) = Some e2 \<and>
                 commitMoves delta e2 = Inr e4 \<and>
                 update delta e0 = Some (Inr e'') \<and>
                 (headHit (nextPos delta e2 (player e2)) (nextPos delta e2 (ai e2)) \<or>
                  playerHit (nextPos delta e2 (player e2)) e4 \<or>
                  aiHit (nextPos delta e2 (ai e2)) e4
                  \<longrightarrow> \<not> running e'' \<and> roundEnds e'' = roundEnds ?E + 1))"
    by blast
  have e0: "e0 = startRound ?E" using p0 by simp
  from t0 rp have "\<exists>e2 e4 e''.
                 updateAI 0.05 (updateSpeed 0.05 (updateTimers 0.05 (startRound ?E))) = Some e2 \<and>
                 commitMoves 0.05 e2 = Inr e4 \<and>
                 update 0.05 (startRound ?E) = Some (Inr e'') \<and>
                 (headHit (nextPos 0.05 e2 (player e2)) (nextPos 0.05 e2 (ai e2)) \<or>
                  playerHit (nextPos 0.05 e2 (player e2)) e4 \<or>
                  aiHit (nextPos 0.05 e2 (ai e2)) e4
                  \<longrightarrow> \<not> running e'' \<and> roundEnds e'' = roundEnds ?E + 1)"
    unfolding e0 by blast
  then obtain e2 e4 e1 where
    a: "updateAI 0.05 (updateSpeed 0.05 (updateTimers 0.05 (startRound ?E))) = Some e2"
    and u: "update 0.05 (startRound ?E) = Some (Inr e1)"
    and h: "headHit (nextPos 0.05 e2 (player e2)) (nextPos 0.05 e2 (ai e2)) \<or>
            playerHit (nextPos 0.05 e2 (player e2)) e4 \<or>
            aiHit (nextPos 0.05 e2 (ai e2)) e4
            \<longrightarrow> \<not> running e1 \<and> roundEnds e1 = roundEnds ?E + 1"
    by blast
  have pl: "player e2 = player (startRound ?E)"
    using updateAI_fields(3) [OF a] by (simp add: updateSpeed_fields updateTimers_fields)
  have "vy (nextPos 0.05 e2 (player e2)) = 5"
    unfolding pl by (simp add: nextPos_def start_defs)
  then have "playerHit (nextPos 0.05 e2 (player e2)) e4"
    by (simp add: playerHit_def checkCollision_def const_defs)
  with h have e1: "\<not> running e1" "roundEnds e1 = 1" unfolding z by simp_all
  have p1: "performAll [Tick 0.05] (startRound ?E) = Some (Inr e1)" using u by simp
  from round_outcome_raised_once [OF n1, of ?E] obtain e' where
    p: "performAll [Tick 0.05] (startRound ?E) = Some (Inr e')"
    and st: "\<not> running e' \<longrightarrow>
              (\<forall>ds. (\<forall>c \<in> set ds. c \<noteq> StartRound \<and> c \<noteq> Reset) \<longrightarrow>
                 (\<exists>e''. performAll ds e' = Some (Inr e'') \<and>
                    \<not> running e'' \<and> player e'' = player e' \<and> ai e'' = ai e' \<and>
                    speed e'' = speed e' \<and> speedTimer e'' = speedTimer e' \<and>
                    aiDecisionTimer e'' = aiDecisionTimer e' \<and>
                    aiDistanceSinceTurn e'' = aiDistanceSinceTurn e' \<and> calls e'' = calls e'))"
    by blast
  have eq: "e' = e1" using p p1 by simp
  from st e1(1) n2 obtain e'' where
    "performAll [Tick 0.05, SetPlayerDirection Up] e1 = Some (Inr e'')"
    "player e'' = player e1" "ai e'' = ai e1" "calls e'' = calls e1"
    unfolding eq by blast
  then show ?thesis using rp p1 e1 by blast
qed

end
